theory Spec2Isabelle
  imports Complex_Main "HOL-Library.Word" "HOL-Library.Log_Nat"
begin

unbundle bit_operations_syntax

section \<open>Generative Generator: learning, tendency analysis and note generation\<close>

text \<open>
  A shallow embedding of the firmware's learning and generation core.  The globals of the
  firmware are the fields of one record \<open>state\<close> that every operation takes and returns.
  Conventions of the embedding:
  \<^item> \<open>uint8_t\<close> is \<open>8 word\<close>, \<open>uint32_t\<close> is \<open>32 word\<close> (arithmetic wraps);
    \<open>int\<close> is the mathematical \<open>int\<close> (no counter of the core gets near \<open>2^31\<close>);
  \<^item> \<open>float\<close> is IEEE binary32: a float is the real number it denotes, and every
    operation that produces a float (an arithmetic operation, a conversion from an integer, a
    decimal literal) is the exact operation on the reals followed by the rounding \<open>fl\<close> to
    the nearest binary32 value, ties to even, subnormal range included.  Each operation rounds
    on its own (no fused multiply-add).  Overflow to infinity and NaN are not modelled: no
    value of the core comes near \<open>2^128\<close>, and a division by zero, which the generation
    code never performs (the phrase target is at least 4 there), has HOL's value 0;
  \<^item> the one float the tendency analysis stores, \<open>register_center\<close>, is kept as the exact
    quotient; the rounding of that division is applied where the generation code and the
    session read the field;
  \<^item> a C cast from float to an integer type truncates towards zero (\<open>trunc\<close>);
  \<^item> \<open>System::GetNow()\<close> is an input: every operation that reads the clock takes the
    value the clock would return as an argument;
  \<^item> a fixed-size array is a list (its declared length is part of the well-formedness
    predicates below); the parameter array, only ever read at constant indices, is a
    function from the index;
  \<^item> an access of the note history outside its 8 slots is a fault: the operations that
    index it return \<open>None\<close> there;
  \<^item> debug logging, display, LED, MIDI and gate output are not modelled.
\<close>

subsection \<open>Constants and data\<close>

type_synonym u8 = "8 word"
type_synonym u32 = "32 word"

definition PARAM_MOTION :: nat where "PARAM_MOTION = 0"
definition PARAM_MEMORY :: nat where "PARAM_MEMORY = 1"
definition PARAM_REGISTER :: nat where "PARAM_REGISTER = 2"
definition PARAM_DIRECTION :: nat where "PARAM_DIRECTION = 3"
definition PARAM_PHRASE :: nat where "PARAM_PHRASE = 4"
definition PARAM_ENERGY :: nat where "PARAM_ENERGY = 5"
definition PARAM_RANGE_WIDTH :: nat where "PARAM_RANGE_WIDTH = 11"
definition PARAM_LEARN_TIMEOUT :: nat where "PARAM_LEARN_TIMEOUT = 12"

datatype LearningState = STATE_IDLE | STATE_LEARNING | STATE_GENERATING

definition MIN_LEARN_NOTES :: int where "MIN_LEARN_NOTES = 4"
definition MAX_LEARN_NOTES :: int where "MAX_LEARN_NOTES = 16"
definition NOTE_HISTORY_SIZE :: int where "NOTE_HISTORY_SIZE = 8"
definition MAX_ATTEMPTS :: int where "MAX_ATTEMPTS = 4"

record LearnedTendencies =
  interval_counts :: "int list"
  total_intervals :: int
  ascending_count :: int
  descending_count :: int
  repeat_count :: int
  register_center :: real
  register_range :: real
  register_min :: u8
  register_max :: u8
  most_common_interval :: int
  second_common_interval :: int

record state =
  parameters_smoothed :: "nat \<Rightarrow> real"
  learning_state :: LearningState
  note_buffer :: "u8 list"
  note_buffer_count :: int
  last_note_time :: u32
  tendencies :: LearnedTendencies
  current_note :: u8
  previous_note :: u8
  last_interval :: int
  last_direction_up :: bool
  note_history :: "u8 list"
  note_history_count :: int
  note_history_index :: int
  phrase_note_count :: int
  phrase_target_length :: int
  rng_state :: u32
  current_page :: int
  page_change_timer :: int

subsection \<open>Single-precision arithmetic\<close>

text \<open>Rounding of a real to the nearest integer, ties to the even one.\<close>

definition rne :: "real \<Rightarrow> int" where
  "rne x = (let f = \<lfloor>x\<rfloor>; d = x - of_int f
            in if d < 1 / 2 then f else if 1 / 2 < d then f + 1 else if even f then f else f + 1)"

text \<open>A non-negative multiple \<open>y\<close> of the smallest subnormal \<open>2^-149\<close> is rounded to 24
  significant bits: below \<open>2^24\<close> units the grid is the integers (the subnormals and the
  first binade of the normal numbers), and with \<open>n > 24\<close> bits before the binary point the
  grid is the multiples of \<open>2^(n-24)\<close>.\<close>

definition grid_exp :: "real \<Rightarrow> nat" where
  "grid_exp y = nat (bitlen \<lfloor>y\<rfloor> - 24)"

definition round_scaled :: "real \<Rightarrow> real" where
  "round_scaled y = of_int (rne (y / 2 ^ grid_exp y)) * 2 ^ grid_exp y"

text \<open>The binary32 value nearest to a real, and the four arithmetic operations on floats.\<close>

definition fl :: "real \<Rightarrow> real" where
  "fl x = sgn x * round_scaled (\<bar>x\<bar> * 2 ^ 149) / 2 ^ 149"

definition fadd :: "real \<Rightarrow> real \<Rightarrow> real" where
  "fadd a b = fl (a + b)"

definition fsub :: "real \<Rightarrow> real \<Rightarrow> real" where
  "fsub a b = fl (a - b)"

definition fmul :: "real \<Rightarrow> real \<Rightarrow> real" where
  "fmul a b = fl (a * b)"

definition fdiv :: "real \<Rightarrow> real \<Rightarrow> real" where
  "fdiv a b = fl (a / b)"

text \<open>The C cast \<open>(int)x\<close> of a float: truncation towards zero.\<close>

definition trunc :: "real \<Rightarrow> int" where
  "trunc x = (if 0 \<le> x then \<lfloor>x\<rfloor> else \<lceil>x\<rceil>)"

subsection \<open>Tendency analysis (\<open>analyze_learned_notes\<close>)\<close>

text \<open>\<open>LearnedTendencies()\<close>: the value-initialised struct, every field zero.\<close>

definition empty_tendencies :: LearnedTendencies where
  "empty_tendencies =
     \<lparr> interval_counts = replicate 13 0, total_intervals = 0,
       ascending_count = 0, descending_count = 0, repeat_count = 0,
       register_center = 0, register_range = 0, register_min = 0, register_max = 0,
       most_common_interval = 0, second_common_interval = 0 \<rparr>"

text \<open>Body of the first loop: running minimum, maximum and sum of the notes.\<close>

definition register_step :: "u8 \<Rightarrow> LearnedTendencies \<times> real \<Rightarrow> LearnedTendencies \<times> real" where
  "register_step note acc =
     (case acc of (t, note_sum) \<Rightarrow>
        let t1 = (if note < register_min t then t\<lparr>register_min := note\<rparr> else t);
            t2 = (if note > register_max t1 then t1\<lparr>register_max := note\<rparr> else t1)
        in (t2, note_sum + real (unat note)))"

text \<open>Body of the second loop, for one signed interval between consecutive notes.\<close>

definition count_interval :: "int \<Rightarrow> LearnedTendencies \<Rightarrow> LearnedTendencies" where
  "count_interval interval t =
     (let t1 = (if interval > 0 then t\<lparr>ascending_count := ascending_count t + 1\<rparr>
                else if interval < 0 then t\<lparr>descending_count := descending_count t + 1\<rparr>
                else t\<lparr>repeat_count := repeat_count t + 1\<rparr>);
          interval_size = \<bar>interval\<bar>;
          interval_size = (if interval_size > 12 then 12 else interval_size);
          t2 = t1\<lparr>interval_counts :=
                 (interval_counts t1)[nat interval_size := interval_counts t1 ! nat interval_size + 1]\<rparr>
      in t2\<lparr>total_intervals := total_intervals t2 + 1\<rparr>)"

text \<open>The second loop: \<open>i\<close> runs over the consecutive pairs \<open>note_buffer[i], note_buffer[i+1]\<close>.\<close>

fun interval_scan :: "u8 list \<Rightarrow> LearnedTendencies \<Rightarrow> LearnedTendencies" where
  "interval_scan (a # b # rest) t = interval_scan (b # rest) (count_interval (uint b - uint a) t)"
| "interval_scan _ t = t"

text \<open>Body of the third loop at bin \<open>i\<close>; the accumulator carries the struct and the locals
  \<open>max_count\<close> and \<open>second_max_count\<close>.\<close>

definition common_step :: "nat \<Rightarrow> LearnedTendencies \<times> int \<times> int \<Rightarrow> LearnedTendencies \<times> int \<times> int" where
  "common_step i acc =
     (case acc of (t, max_count, second_max_count) \<Rightarrow>
        if interval_counts t ! i > max_count then
          (t\<lparr>second_common_interval := most_common_interval t, most_common_interval := int i\<rparr>,
           interval_counts t ! i, max_count)
        else if interval_counts t ! i > second_max_count then
          (t\<lparr>second_common_interval := int i\<rparr>, max_count, interval_counts t ! i)
        else (t, max_count, second_max_count))"

definition find_common_intervals :: "LearnedTendencies \<Rightarrow> LearnedTendencies" where
  "find_common_intervals t = fst (fold common_step [0..<13] (t, 0, 0))"

text \<open>The function after its first statement: it works in place on the struct \<open>t\<close> and reads
  the first \<open>note_buffer_count\<close> entries of the buffer.\<close>

definition analyze_body :: "u8 list \<Rightarrow> int \<Rightarrow> LearnedTendencies \<Rightarrow> LearnedTendencies" where
  "analyze_body buffer n t =
     (if n < 2 then t
      else
        let notes = take (nat n) buffer;
            t1 = t\<lparr>register_min := 127, register_max := 0\<rparr>;
            (t2, note_sum) = fold register_step notes (t1, 0);
            t3 = t2\<lparr>register_center := note_sum / real_of_int n\<rparr>;
            t4 = t3\<lparr>register_range := real_of_int (uint (register_max t3) - uint (register_min t3))\<rparr>;
            t5 = interval_scan notes t4
        in find_common_intervals t5)"

definition analyze_learned_notes :: "state \<Rightarrow> state" where
  "analyze_learned_notes s =
     (let s1 = s\<lparr>tendencies := empty_tendencies\<rparr>
      in s1\<lparr>tendencies := analyze_body (note_buffer s1) (note_buffer_count s1) (tendencies s1)\<rparr>)"

subsection \<open>Random source and note history\<close>

definition xorshift32 :: "state \<Rightarrow> u32 \<times> state" where
  "xorshift32 s =
     (let x1 = rng_state s XOR push_bit 13 (rng_state s);
          x2 = x1 XOR drop_bit 17 x1;
          x3 = x2 XOR push_bit 5 x2
      in (x3, s\<lparr>rng_state := x3\<rparr>))"

text \<open>\<open>(float)xorshift32() / 4294967296.0f\<close>: the conversion of the 32-bit result to float
  rounds it to 24 significant bits.\<close>

definition random_float :: "state \<Rightarrow> real \<times> state" where
  "random_float s = (case xorshift32 s of (x, s') \<Rightarrow> (fdiv (fl (real (unat x))) 4294967296, s'))"

definition add_note_to_history :: "u8 \<Rightarrow> state \<Rightarrow> state option" where
  "add_note_to_history note s =
     (if 0 \<le> note_history_index s \<and> note_history_index s < NOTE_HISTORY_SIZE then
        let s1 = s\<lparr>note_history := (note_history s)[nat (note_history_index s) := note]\<rparr>;
            s2 = s1\<lparr>note_history_index := (note_history_index s1 + 1) mod NOTE_HISTORY_SIZE\<rparr>
        in Some (if note_history_count s2 < NOTE_HISTORY_SIZE
                 then s2\<lparr>note_history_count := note_history_count s2 + 1\<rparr> else s2)
      else None)"

definition count_in_history :: "u8 \<Rightarrow> state \<Rightarrow> int option" where
  "count_in_history note s =
     (if note_history_count s \<le> NOTE_HISTORY_SIZE then
        Some (fold (\<lambda>x count. if x = note then count + 1 else count)
                (take (nat (note_history_count s)) (note_history s)) 0)
      else None)"

subsection \<open>The ENERGY macro\<close>

text \<open>Each of the four functions that read ENERGY computes the same deviation and perturbs
  one parameter with it, clamping with two \<open>if\<close> statements.  The literals \<open>0.5f\<close>,
  \<open>2.0f\<close> and the like are binary32 values; \<open>0.3f\<close> and \<open>0.2f\<close> are the roundings of
  the decimals.\<close>

definition energy_deviation :: "state \<Rightarrow> real" where
  "energy_deviation s = fmul (fsub (parameters_smoothed s PARAM_ENERGY) 0.5) 2"

definition energy_motion :: "state \<Rightarrow> real" where
  "energy_motion s =
     (let motion_bias = parameters_smoothed s PARAM_MOTION;
          motion_bias = fadd motion_bias (fmul (energy_deviation s) (fl 0.3));
          motion_bias = (if motion_bias < 0 then 0 else motion_bias)
      in if motion_bias > 1 then 1 else motion_bias)"

definition energy_phrase :: "state \<Rightarrow> real" where
  "energy_phrase s =
     (let phrase_param = parameters_smoothed s PARAM_PHRASE;
          phrase_param = fadd phrase_param (fmul (energy_deviation s) (fl 0.2));
          phrase_param = (if phrase_param < 0 then 0 else phrase_param)
      in if phrase_param > 1 then 1 else phrase_param)"

definition energy_memory :: "state \<Rightarrow> real" where
  "energy_memory s =
     (let memory_param = parameters_smoothed s PARAM_MEMORY;
          memory_param = fsub memory_param (fmul (energy_deviation s) (fl 0.3));
          memory_param = (if memory_param < 0 then 0 else memory_param)
      in if memory_param > 1 then 1 else memory_param)"

definition energy_gravity :: "state \<Rightarrow> real" where
  "energy_gravity s =
     (let register_gravity = parameters_smoothed s PARAM_REGISTER;
          effective_gravity = fsub register_gravity (fmul (energy_deviation s) (fl 0.3));
          effective_gravity = (if effective_gravity < 0 then 0 else effective_gravity)
      in if effective_gravity > 1 then 1 else effective_gravity)"

definition energy_range :: "state \<Rightarrow> real" where
  "energy_range s =
     (let range_param = parameters_smoothed s PARAM_RANGE_WIDTH;
          range_param = fadd range_param (fmul (energy_deviation s) (fl 0.3));
          range_param = (if range_param < 0 then 0 else range_param)
      in if range_param > 1 then 1 else range_param)"

subsection \<open>Memory bias\<close>

text \<open>The acceptance probability \<open>apply_memory_bias\<close> computes once the candidate is known to
  occur in the history, from the energy-adjusted MEMORY value and the occurrence count.\<close>

definition acceptance_probability :: "real \<Rightarrow> int \<Rightarrow> real" where
  "acceptance_probability memory_param history_count =
     (let p = (if memory_param < fl 0.4 then
                 (let avoidance = fdiv (fsub (fl 0.4) memory_param) (fl 0.4)
                  in fsub 1 (fdiv (fmul avoidance (fl (of_int history_count)))
                                  (fl (of_int NOTE_HISTORY_SIZE))))
               else if memory_param > fl 0.6 then
                 (let favoritism = fdiv (fsub memory_param (fl 0.6)) (fl 0.4)
                  in fadd 1 (fdiv (fmul favoritism (fl (of_int history_count)))
                                  (fl (of_int NOTE_HISTORY_SIZE))))
               else 1);
          p = (if p < 0 then 0 else p)
      in if p > 1 then 1 else p)"

definition apply_memory_bias :: "u8 \<Rightarrow> state \<Rightarrow> (bool \<times> state) option" where
  "apply_memory_bias candidate_note s =
     (let memory_param = energy_memory s
      in case count_in_history candidate_note s of
           None \<Rightarrow> None
         | Some history_count \<Rightarrow>
             if history_count = 0 then Some (True, s)
             else (case random_float s of
                     (r, s') \<Rightarrow> Some (r < acceptance_probability memory_param history_count, s')))"

subsection \<open>Interval and direction selection\<close>

text \<open>The cumulative weights \<open>cumulative[i]\<close> for the bins listed; \<open>running\<close> is the source's \<open>total\<close> so far.\<close>

fun cumulate :: "int list \<Rightarrow> int \<Rightarrow> nat list \<Rightarrow> int list" where
  "cumulate counts running [] = []"
| "cumulate counts running (i # is) =
     (running + counts ! i) # cumulate counts (running + counts ! i) is"

text \<open>The search loop: the first bin whose cumulative weight exceeds \<open>rand_val\<close>, else the
  fallback 2.\<close>

fun find_bin :: "int list \<Rightarrow> int \<Rightarrow> nat list \<Rightarrow> int" where
  "find_bin cumulative rand_val [] = 2"
| "find_bin cumulative rand_val (i # is) =
     (if rand_val < cumulative ! i then int i else find_bin cumulative rand_val is)"

definition select_interval_from_distribution :: "state \<Rightarrow> int \<times> state" where
  "select_interval_from_distribution s =
     (if total_intervals (tendencies s) = 0 then (2, s)
      else
        let cumulative = cumulate (interval_counts (tendencies s)) 0 [0..<13];
            total = cumulative ! 12
        in case random_float s of
             (r, s') \<Rightarrow>
               let rand_val = trunc (fmul r (fl (of_int total)))
               in (find_bin cumulative rand_val [0..<13], s'))"

text \<open>The MOTION rescaling of the interval size inside the candidate loop.\<close>

definition apply_motion :: "real \<Rightarrow> int \<Rightarrow> state \<Rightarrow> int \<times> state" where
  "apply_motion motion_bias interval_size s =
     (if motion_bias < 0.5 then
        let scale = fmul motion_bias 2;
            interval_size = trunc (fadd (fmul (fl (of_int interval_size)) scale) 0.5)
        in if interval_size = 0 then
             (case random_float s of (r, s') \<Rightarrow> (if r > 0.5 then 1 else interval_size, s'))
           else (interval_size, s)
      else
        let scale = fmul (fsub motion_bias 0.5) 2;
            boost = trunc (fmul scale 4)
        in (min (interval_size + boost) 12, s))"

text \<open>The phrase-end boost of \<open>select_direction\<close>, applied to the energy-adjusted gravity:
  in the last 30 percent of the phrase the gravity is raised.\<close>

definition phrase_boost :: "real \<Rightarrow> state \<Rightarrow> real" where
  "phrase_boost effective_gravity s =
     (if phrase_target_length s > 0 then
        let phrase_progress =
              fdiv (fl (of_int (phrase_note_count s))) (fl (of_int (phrase_target_length s)))
        in if phrase_progress > fl 0.7 then
             let phrase_boost = fdiv (fsub phrase_progress (fl 0.7)) (fl 0.3);
                 effective_gravity = fadd effective_gravity (fmul phrase_boost (fl 0.3))
             in (if effective_gravity > 1 then 1 else effective_gravity)
           else effective_gravity
      else effective_gravity)"

definition boosted_gravity :: "state \<Rightarrow> real" where
  "boosted_gravity s = phrase_boost (energy_gravity s) s"

text \<open>The probability of an upward step that \<open>select_direction\<close> compares its draw with,
  for the gravity in force.\<close>

definition direction_probability :: "real \<Rightarrow> state \<Rightarrow> real" where
  "direction_probability effective_gravity s =
     (let direction_bias = parameters_smoothed s PARAM_DIRECTION;
          t = tendencies s;
          total_directional = ascending_count t + descending_count t;
          learned_up_probability =
            (if total_directional > 0
             then fdiv (fl (of_int (ascending_count t))) (fl (of_int total_directional)) else 0.5);
          blend_factor = fmul \<bar>fsub direction_bias 0.5\<bar> 2;
          target_probability = (if direction_bias > 0.5 then 1 else 0);
          base_probability =
            fadd (fmul learned_up_probability (fsub 1 blend_factor))
                 (fmul target_probability blend_factor);
          gravity_influence =
            (if effective_gravity > fl 0.05 then
               let distance_from_center =
                     fsub (real (unat (current_note s))) (fl (register_center t));
                   normalized_distance = fdiv distance_from_center 24;
                   normalized_distance = (if normalized_distance < - 1 then - 1 else normalized_distance);
                   normalized_distance = (if normalized_distance > 1 then 1 else normalized_distance)
               in fmul (- normalized_distance) effective_gravity
             else 0);
          final_probability = fadd base_probability (fmul gravity_influence 0.5);
          final_probability = (if final_probability < 0 then 0 else final_probability)
      in if final_probability > 1 then 1 else final_probability)"

definition select_direction :: "state \<Rightarrow> bool \<times> state" where
  "select_direction s =
     (let final_probability = direction_probability (boosted_gravity s) s
      in case random_float s of (r, s') \<Rightarrow> (r < final_probability, s'))"

subsection \<open>Octave displacement\<close>

text \<open>The octave shift chosen from the second draw: one octave either way below a range of
  0.5, up to two octaves from there on.\<close>

definition octave_shift :: "real \<Rightarrow> real \<Rightarrow> int" where
  "octave_shift range_param roll =
     (if range_param < 0.5 then (if roll > 0.5 then 12 else - 12)
      else if roll < 0.5 then 12
      else if roll < 0.75 then - 12
      else if roll < 0.875 then 24
      else - 24)"

definition apply_octave_displacement :: "u8 \<Rightarrow> state \<Rightarrow> u8 \<times> state" where
  "apply_octave_displacement note s =
     (let range_param = energy_range s
      in if range_param < fl 0.1 then (note, s)
         else
           let displacement_probability = fmul range_param (fl 0.2)
           in case random_float s of
                (r1, s1) \<Rightarrow>
                  if r1 > displacement_probability then (note, s1)
                  else (case random_float s1 of
                          (roll, s2) \<Rightarrow>
                            let displaced = uint note + octave_shift range_param roll;
                                displaced = max 0 (min 127 displaced)
                            in (word_of_int displaced, s2)))"

subsection \<open>\<open>generate_next_note\<close>\<close>

text \<open>One pass through the body of the candidate loop: the candidate, whether the memory bias
  accepted it, and the state after the pass.\<close>

definition try_candidate :: "real \<Rightarrow> state \<Rightarrow> (u8 \<times> bool \<times> state) option" where
  "try_candidate motion_bias s =
     (case select_interval_from_distribution s of
        (interval_size, s1) \<Rightarrow>
     (case apply_motion motion_bias interval_size s1 of
        (interval_size, s2) \<Rightarrow>
     (case select_direction s2 of
        (go_up, s3) \<Rightarrow>
          let signed_interval = (if go_up then interval_size else - interval_size);
              new_note = uint (current_note s3) + signed_interval;
              new_note = max 0 (min 127 new_note)
          in (case apply_octave_displacement (word_of_int new_note) s3 of
                (displaced, s4) \<Rightarrow>
                  let new_note = uint displaced;
                      candidate_note = word_of_int new_note
                  in (case apply_memory_bias candidate_note s4 of
                        None \<Rightarrow> None
                      | Some (accepted, s5) \<Rightarrow> Some (candidate_note, accepted, s5))))))"

text \<open>The \<open>while\<close> loop, on the locals \<open>attempts\<close> and \<open>candidate_note\<close>; it returns their
  final values with the state.\<close>

function candidate_loop :: "real \<Rightarrow> int \<Rightarrow> u8 \<Rightarrow> state \<Rightarrow> (u8 \<times> int \<times> state) option" where
  "candidate_loop motion_bias attempts candidate_note s =
     (if attempts < MAX_ATTEMPTS then
        (case try_candidate motion_bias s of
           None \<Rightarrow> None
         | Some (c, accepted, s') \<Rightarrow>
             if accepted then Some (c, attempts, s')
             else candidate_loop motion_bias (attempts + 1) c s')
      else Some (candidate_note, attempts, s))"
  by pat_completeness auto
termination
  by (relation "measure (\<lambda>(m, attempts, c, s). nat (MAX_ATTEMPTS - attempts))") auto

text \<open>The soft phrase boundary; \<open>now\<close> is what \<open>System::GetNow()\<close> returns if it is called.\<close>

definition phrase_reset :: "u32 \<Rightarrow> state \<Rightarrow> state" where
  "phrase_reset now s =
     (if phrase_note_count s \<ge> phrase_target_length s then
        let overrun = fl (of_int (phrase_note_count s - phrase_target_length s));
            reset_probability =
              fadd 0.5 (fmul (fdiv overrun (fl (of_int (phrase_target_length s)))) 0.5);
            reset_probability = (if reset_probability > 1 then 1 else reset_probability)
        in case random_float s of
             (r, s') \<Rightarrow>
               if r < reset_probability
               then (s'\<lparr>phrase_note_count := 0\<rparr>)\<lparr>rng_state := rng_state s' XOR now\<rparr>
               else s'
      else s)"

definition generate_next_note :: "u32 \<Rightarrow> state \<Rightarrow> (u8 \<times> state) option" where
  "generate_next_note now s =
     (let motion_bias = energy_motion s;
          phrase_param = energy_phrase s;
          s0 = s\<lparr>phrase_target_length := trunc (fadd 4 (fmul phrase_param 28))\<rparr>
      in case candidate_loop motion_bias 0 0 s0 of
           None \<Rightarrow> None
         | Some (candidate_note, attempts, s1) \<Rightarrow>
             (case add_note_to_history candidate_note s1 of
                None \<Rightarrow> None
              | Some s2 \<Rightarrow>
                  let s3 = s2\<lparr>phrase_note_count := phrase_note_count s2 + 1\<rparr>;
                      s4 = phrase_reset now s3;
                      s5 = s4\<lparr>previous_note := current_note s4\<rparr>;
                      s6 = s5\<lparr>last_interval := uint candidate_note - uint (current_note s5)\<rparr>;
                      s7 = s6\<lparr>last_direction_up := (candidate_note > current_note s6)\<rparr>
                  in Some (candidate_note, s7)))"

subsection \<open>Session control\<close>

definition start_learning :: "u32 \<Rightarrow> state \<Rightarrow> state" where
  "start_learning now s =
     s\<lparr>learning_state := STATE_LEARNING, note_buffer_count := 0, last_note_time := now\<rparr>"

definition add_note_to_buffer :: "u32 \<Rightarrow> u8 \<Rightarrow> state \<Rightarrow> state" where
  "add_note_to_buffer now midi_note s =
     (if learning_state s = STATE_LEARNING \<and> note_buffer_count s < MAX_LEARN_NOTES then
        s\<lparr>note_buffer := (note_buffer s)[nat (note_buffer_count s) := midi_note],
          note_buffer_count := note_buffer_count s + 1,
          last_note_time := now\<rparr>
      else s)"

text \<open>The Note On branch (velocity above 0) of the MIDI loop in \<open>UpdateControls\<close>; each of
  the two clock reads has its own argument.\<close>

definition note_on :: "u32 \<Rightarrow> u32 \<Rightarrow> u8 \<Rightarrow> state \<Rightarrow> state" where
  "note_on now1 now2 note s =
     (let s1 = (if learning_state s = STATE_IDLE \<or> learning_state s = STATE_GENERATING
                then start_learning now1 s else s)
      in add_note_to_buffer now2 note s1)"

definition learning_timeout_ms :: "state \<Rightarrow> u32" where
  "learning_timeout_ms s =
     500 + word_of_int (trunc (fmul (parameters_smoothed s PARAM_LEARN_TIMEOUT) 9500))"

text \<open>The condition under which \<open>update_learning_state\<close> stops learning at clock value
  \<open>now\<close>.\<close>

definition learning_done :: "u32 \<Rightarrow> state \<Rightarrow> bool" where
  "learning_done now s =
     (let current_time = now;
          time_since_note = current_time - last_note_time s
      in note_buffer_count s \<ge> MAX_LEARN_NOTES \<or>
         (time_since_note > learning_timeout_ms s \<and> note_buffer_count s \<ge> MIN_LEARN_NOTES))"

definition update_learning_state :: "u32 \<Rightarrow> u32 \<Rightarrow> state \<Rightarrow> state" where
  "update_learning_state now now_seed s =
     (if learning_state s = STATE_LEARNING then
        if learning_done now s then
          let s1 = s\<lparr>learning_state := STATE_GENERATING\<rparr>;
              s2 = analyze_learned_notes s1;
              s3 = s2\<lparr>current_note := word_of_int (trunc (fl (register_center (tendencies s2))))\<rparr>;
              s4 = s3\<lparr>previous_note := current_note s3\<rparr>;
              s5 = s4\<lparr>last_interval := 0\<rparr>;
              s6 = s5\<lparr>last_direction_up :=
                      (ascending_count (tendencies s5) \<ge> descending_count (tendencies s5))\<rparr>;
              s7 = s6\<lparr>note_history_count := 0, note_history_index := 0,
                      note_history := replicate 8 0\<rparr>;
              s8 = s7\<lparr>phrase_note_count := 0, phrase_target_length := 12\<rparr>
          in s8\<lparr>rng_state := now_seed\<rparr>
        else s
      else s)"

text \<open>The body of \<open>if(hw.encoder.RisingEdge())\<close> in \<open>UpdateControls\<close>.\<close>

definition encoder_click :: "state \<Rightarrow> state" where
  "encoder_click s =
     (if learning_state s = STATE_GENERATING then
        s\<lparr>learning_state := STATE_IDLE, note_buffer_count := 0, page_change_timer := 30\<rparr>
      else s\<lparr>current_page := 0, page_change_timer := 60\<rparr>)"

text \<open>The rising edge of gate input 1 in \<open>UpdateControls\<close>: one trigger, one generated note.\<close>

definition note_trigger :: "u32 \<Rightarrow> state \<Rightarrow> state option" where
  "note_trigger now s =
     (if learning_state s = STATE_GENERATING \<and> note_buffer_count s \<ge> MIN_LEARN_NOTES then
        (case generate_next_note now s of
           None \<Rightarrow> None
         | Some (n, s') \<Rightarrow> Some (s'\<lparr>current_note := n\<rparr>))
      else Some s)"

text \<open>A run of triggers, one clock value each.\<close>

fun note_triggers :: "u32 list \<Rightarrow> state \<Rightarrow> state option" where
  "note_triggers [] s = Some s"
| "note_triggers (now # nows) s =
     (case note_trigger now s of None \<Rightarrow> None | Some s' \<Rightarrow> note_triggers nows s')"

subsection \<open>Vocabulary of the properties\<close>


text \<open>The signed intervals between consecutive notes, the saturation of an interval's size
  at one octave, and the number of intervals with a given property.\<close>

fun intervals :: "u8 list \<Rightarrow> int list" where
  "intervals (a # b # rest) = (uint b - uint a) # intervals (b # rest)"
| "intervals _ = []"

definition saturated :: "int \<Rightarrow> int" where
  "saturated d = min \<bar>d\<bar> 12"

definition occurrences :: "(int \<Rightarrow> bool) \<Rightarrow> int list \<Rightarrow> int" where
  "occurrences P ds = int (length (filter P ds))"

text \<open>The globals as their initialisers leave them, for a given parameter vector; the
  parameter vector \<open>main\<close> sets up with the four pots of page 0 at mid position (index
  13 is the ECHO parameter); and a state whose learning buffer holds the given notes.\<close>

definition initial_state :: "(nat \<Rightarrow> real) \<Rightarrow> state" where
  "initial_state controls =
     \<lparr> parameters_smoothed = controls, learning_state = STATE_IDLE,
       note_buffer = replicate 16 0, note_buffer_count = 0, last_note_time = 0,
       tendencies = empty_tendencies,
       current_note = 60, previous_note = 60, last_interval = 0, last_direction_up = True,
       note_history = replicate 8 0, note_history_count = 0, note_history_index = 0,
       phrase_note_count = 0, phrase_target_length = 12, rng_state = 12345,
       current_page = 0, page_change_timer = 0 \<rparr>"

definition default_controls :: "nat \<Rightarrow> real" where
  "default_controls i = (if i = PARAM_LEARN_TIMEOUT then fl 0.158 else if i = 13 then 0 else 0.5)"

definition with_buffer :: "u8 list \<Rightarrow> state \<Rightarrow> state" where
  "with_buffer ns s =
     s\<lparr>note_buffer := ns @ replicate (16 - length ns) 0, note_buffer_count := int (length ns)\<rparr>"

text \<open>The tie-break vocabulary for a histogram \<open>c\<close> of 13 bins: bin \<open>k\<close> is the lowest
  index among the bins of maximum count; bin \<open>k\<close> is the lowest index among the bins of
  maximum count once bin \<open>m\<close> is set aside; at least two bins are non-empty.\<close>

definition lowest_max_bin :: "int list \<Rightarrow> nat \<Rightarrow> bool" where
  "lowest_max_bin c k =
     (k < 13 \<and> (\<forall>j\<in>set [0..<13]. c ! j \<le> c ! k) \<and> (\<forall>j\<in>set [0..<k]. c ! j < c ! k))"

definition secondary_winner :: "int list \<Rightarrow> nat \<Rightarrow> nat \<Rightarrow> bool" where
  "secondary_winner c m k =
     (k < 13 \<and> k \<noteq> m \<and> (\<forall>j\<in>set [0..<13]. j \<noteq> m \<longrightarrow> c ! j \<le> c ! k) \<and>
      (\<forall>j\<in>set [0..<k]. j \<noteq> m \<longrightarrow> c ! j < c ! k))"

definition two_bins_nonempty :: "int list \<Rightarrow> bool" where
  "two_bins_nonempty c = (\<exists>i\<in>set [0..<13]. \<exists>j\<in>set [0..<13]. i \<noteq> j \<and> 0 < c ! i \<and> 0 < c ! j)"

text \<open>The invariant of the scan for the common intervals after the bins below \<open>n\<close>.\<close>

definition common_inv :: "int list \<Rightarrow> nat \<Rightarrow> LearnedTendencies \<times> int \<times> int \<Rightarrow> bool" where
  "common_inv c n acc =
     (case acc of (t, mx, smx) \<Rightarrow>
        interval_counts t = c \<and> 0 \<le> smx \<and> smx \<le> mx \<and> (\<forall>j<n. c ! j \<le> mx) \<and>
        (mx = 0 \<longrightarrow> most_common_interval t = 0 \<and> second_common_interval t = 0) \<and>
        (0 < mx \<longrightarrow>
           (\<exists>k<n. most_common_interval t = int k \<and> c ! k = mx \<and> (\<forall>j<k. c ! j < mx) \<and>
                  (\<forall>j<n. j \<noteq> k \<longrightarrow> c ! j \<le> smx))) \<and>
        (smx = 0 \<longrightarrow> second_common_interval t = 0) \<and>
        (0 < smx \<longrightarrow>
           (\<exists>k<n. second_common_interval t = int k \<and> int k \<noteq> most_common_interval t \<and>
                  c ! k = smx \<and> (\<forall>j<k. int j \<noteq> most_common_interval t \<longrightarrow> c ! j < smx))))"

text \<open>Two inputs used below: a learned phrase of four equal notes, and the histogram of the
  pentatonic phrase 60, 62, 64, 67, 69 before the scan.\<close>

definition unison_phrase :: state where
  "unison_phrase = with_buffer [60, 60, 60, 60] (initial_state default_controls)"

definition pentatonic_histogram :: LearnedTendencies where
  "pentatonic_histogram = empty_tendencies\<lparr>interval_counts := [0, 0, 3, 1, 0, 0, 0, 0, 0, 0, 0, 0, 0]\<rparr>"

text \<open>A run of polls of \<open>update_learning_state\<close>, each with its two clock values; and the
  states after three and after four notes played from power-on, at clock values 10, 20, 30
  and 40.\<close>

definition polls :: "(u32 \<times> u32) list \<Rightarrow> state \<Rightarrow> state" where
  "polls ts s = fold (\<lambda>(now, now_seed). update_learning_state now now_seed) ts s"

definition three_notes_learned :: state where
  "three_notes_learned =
     note_on 30 30 64 (note_on 20 20 62 (note_on 10 10 60 (initial_state default_controls)))"

definition four_notes_learned :: state where
  "four_notes_learned = note_on 40 40 67 three_notes_learned"

text \<open>The clamp to the unit interval, and the control vector (the twelve musical parameters)
  within range.\<close>

definition clamp01 :: "real \<Rightarrow> real" where
  "clamp01 x = max 0 (min 1 x)"


text \<open>The five effective sub-parameters in the words of the specification, as functions of
  the control they adjust and of ENERGY, in the arithmetic of the code: with
  \<open>energy_dev = (ENERGY - 0.5) * 2\<close>, the clamp to the unit interval of MOTION plus
  \<open>energy_dev * 0.3\<close>, of PHRASE plus \<open>energy_dev * 0.2\<close>, of MEMORY minus
  \<open>energy_dev * 0.3\<close>, of REGISTER minus \<open>energy_dev * 0.3\<close> and of RANGE WIDTH plus
  \<open>energy_dev * 0.3\<close>.\<close>

definition energy_dev :: "real \<Rightarrow> real" where
  "energy_dev energy = fmul (fsub energy 0.5) 2"




definition effective_gravity :: "real \<Rightarrow> real \<Rightarrow> real" where
  "effective_gravity gravity energy = clamp01 (fsub gravity (fmul (energy_dev energy) (fl 0.3)))"


text \<open>The number of occurrences of a note among the valid entries of the history.\<close>

definition history_occurrences :: "u8 \<Rightarrow> state \<Rightarrow> int" where
  "history_occurrences note s =
     int (length (filter (\<lambda>x. x = note) (take (nat (note_history_count s)) (note_history s))))"

text \<open>The number of passes through the body of the candidate loop, by the recursion of
  \<open>candidate_loop\<close> itself.\<close>

function loop_passes :: "real \<Rightarrow> int \<Rightarrow> state \<Rightarrow> nat" where
  "loop_passes motion_bias attempts s =
     (if attempts < MAX_ATTEMPTS then
        (case try_candidate motion_bias s of
           None \<Rightarrow> 1
         | Some (c, accepted, s') \<Rightarrow>
             if accepted then 1 else 1 + loop_passes motion_bias (attempts + 1) s')
      else 0)"
  by pat_completeness auto
termination
  by (relation "measure (\<lambda>(m, attempts, s). nat (MAX_ATTEMPTS - attempts))") auto

text \<open>Well-formed states: the arrays have their declared lengths and the history index and
  count are within the history.  Two relations between a state and a later one: the globals
  outside the generation side are the same; only the random state differs.\<close>

definition well_formed :: "state \<Rightarrow> bool" where
  "well_formed s =
     (length (note_buffer s) = 16 \<and> length (note_history s) = 8 \<and>
      length (interval_counts (tendencies s)) = 13 \<and>
      0 \<le> note_history_index s \<and> note_history_index s < 8 \<and>
      0 \<le> note_history_count s \<and> note_history_count s \<le> 8)"

definition learned_kept :: "state \<Rightarrow> state \<Rightarrow> bool" where
  "learned_kept s s' =
     (parameters_smoothed s' = parameters_smoothed s \<and> learning_state s' = learning_state s \<and>
      note_buffer s' = note_buffer s \<and> note_buffer_count s' = note_buffer_count s \<and>
      last_note_time s' = last_note_time s \<and> tendencies s' = tendencies s \<and>
      current_note s' = current_note s \<and> current_page s' = current_page s \<and>
      page_change_timer s' = page_change_timer s)"

definition rng_only :: "state \<Rightarrow> state \<Rightarrow> bool" where
  "rng_only s s' = (\<exists>x. s' = s\<lparr>rng_state := x\<rparr>)"

text \<open>Further inputs used below: the GENERATING state reached from the four learned notes
  by a poll after the timeout; the four learned notes with the LEARN TIMEOUT control at
  \<open>7233629 / 2^32\<close>; a parameter vector with ENERGY at 1 and MOTION at \<open>0.9f\<close>; the
  power-on state with PHRASE at \<open>16777215 / 2^25\<close>, and with RANGE WIDTH at \<open>0.4f\<close> and
  ENERGY at 0; a state with the default controls (MEMORY and ENERGY at 0.5) whose history
  holds 60 twice and whose random state is 1584200935; and a configuration in which every
  candidate is the note 0 and the memory bias rejects it whatever the random draws (MEMORY 0,
  DIRECTION 0, REGISTER and RANGE WIDTH 0, no learned intervals, the current note 0 and a
  history full of 0), each pass through the loop body drawing two random numbers.\<close>

definition generating_state :: state where
  "generating_state = update_learning_state 2042 7 four_notes_learned"

definition timeout_edge_state :: state where
  "timeout_edge_state =
     four_notes_learned\<lparr>parameters_smoothed :=
       default_controls(PARAM_LEARN_TIMEOUT := 7233629 / 2 ^ 32)\<rparr>"




definition neutral_state :: state where
  "neutral_state =
     (initial_state default_controls)
       \<lparr>note_history := [60, 62, 60, 64, 0, 0, 0, 0], note_history_count := 4,
        note_history_index := 4, rng_state := 1584200935\<rparr>"

definition stuck_controls :: "nat \<Rightarrow> real" where
  "stuck_controls =
     default_controls(PARAM_MEMORY := 0, PARAM_DIRECTION := 0, PARAM_REGISTER := 0,
       PARAM_RANGE_WIDTH := 0)"

definition stuck_state :: state where
  "stuck_state =
     (initial_state stuck_controls)
       \<lparr>current_note := 0, note_history_count := 8, note_history_index := 3\<rparr>"

definition stuck_start :: state where
  "stuck_start = stuck_state\<lparr>phrase_target_length := 18\<rparr>"

definition two_draws :: "state \<Rightarrow> state" where
  "two_draws s = snd (random_float (snd (random_float s)))"

definition stuck :: "state \<Rightarrow> bool" where
  "stuck s =
     (parameters_smoothed s = stuck_controls \<and> tendencies s = empty_tendencies \<and>
      current_note s = 0 \<and> note_history s = replicate 8 0 \<and> note_history_count s = 8 \<and>
      phrase_note_count s = 0 \<and> phrase_target_length s = 18)"

section \<open>Properties\<close>

subsection \<open>Single-precision rounding\<close>

text \<open>The rounding is monotone, odd, exact on the values with a 24-bit significand, and
  can be evaluated once the binade of its argument is known.\<close>

lemma rne_of_int [simp]: "rne (of_int n) = n"
  by (simp add: rne_def)

lemma rne_bounds: "\<lfloor>x\<rfloor> \<le> rne x" "rne x \<le> \<lfloor>x\<rfloor> + 1"
  by (simp_all add: rne_def Let_def)

lemma rne_mono: "x \<le> y \<Longrightarrow> rne x \<le> rne y"
proof -
  assume xy: "x \<le> y"
  then have "\<lfloor>x\<rfloor> \<le> \<lfloor>y\<rfloor>" by (rule floor_mono)
  then consider (same) "\<lfloor>x\<rfloor> = \<lfloor>y\<rfloor>" | (less) "\<lfloor>x\<rfloor> + 1 \<le> \<lfloor>y\<rfloor>" by linarith
  then show ?thesis
  proof cases
    case same
    then show ?thesis using xy by (auto simp: rne_def Let_def)
  next
    case less
    then show ?thesis using rne_bounds(2) [of x] rne_bounds(1) [of y] by linarith
  qed
qed

lemma rne_le: "x \<le> of_int n \<Longrightarrow> rne x \<le> n"
  using rne_mono [of x "of_int n"] by simp

lemma rne_ge: "of_int n \<le> x \<Longrightarrow> n \<le> rne x"
  using rne_mono [of "of_int n" x] by simp

lemma bitlen_eqI: "2 ^ k \<le> a \<Longrightarrow> a < 2 ^ Suc k \<Longrightarrow> bitlen a = int k + 1"
  by (rule antisym) (auto simp: bitlen_le_iff_power bitlen_ge_iff_power nat_add_distrib)

lemma bitlen_mono: "a \<le> b \<Longrightarrow> bitlen a \<le> bitlen b"
  by (simp add: bitlen_def floorlog_mono)

lemma grid_exp_mono: "y \<le> y' \<Longrightarrow> grid_exp y \<le> grid_exp y'"
  unfolding grid_exp_def using bitlen_mono [OF floor_mono, of y y'] by linarith


lemma round_scaled_nonneg: "0 \<le> y \<Longrightarrow> 0 \<le> round_scaled y"
proof -
  assume "0 \<le> y"
  then have "of_int 0 \<le> y / 2 ^ grid_exp y" by simp
  then have "0 \<le> rne (y / 2 ^ grid_exp y)" by (rule rne_ge)
  then show ?thesis by (simp add: round_scaled_def)
qed

lemma floor_less_power: "0 \<le> (y::real) \<Longrightarrow> \<lfloor>y\<rfloor> < 2 ^ k \<longleftrightarrow> y < 2 ^ k"
proof -
  have "\<lfloor>y\<rfloor> < 2 ^ k \<longleftrightarrow> y < of_int (2 ^ k)" by (rule floor_less_iff)
  then show ?thesis by simp
qed

lemma power_le_floor: "2 ^ k \<le> \<lfloor>y::real\<rfloor> \<longleftrightarrow> 2 ^ k \<le> y"
proof -
  have "(2 ^ k :: int) \<le> \<lfloor>y\<rfloor> \<longleftrightarrow> of_int (2 ^ k) \<le> y" by (rule le_floor_iff)
  then show ?thesis by simp
qed

text \<open>In the binade of exponent k + 24 the grid is 2 ^ k.\<close>

lemma grid_exp_binade:
  fixes y :: real
  assumes "2 ^ (k + 23) \<le> y" and "y < 2 ^ (k + 24)"
  shows "grid_exp y = k"
proof -
  have "2 ^ (k + 23) \<le> \<lfloor>y\<rfloor>" using assms(1) by (simp add: power_le_floor)
  moreover have "\<lfloor>y\<rfloor> < 2 ^ Suc (k + 23)"
  proof -
    have "0 \<le> y" using assms(1) by (rule order_trans [rotated]) simp
    then show ?thesis using assms(2) by (simp add: floor_less_power add.commute)
  qed
  ultimately have "bitlen \<lfloor>y\<rfloor> = int (k + 23) + 1" by (rule bitlen_eqI)
  then show ?thesis by (simp add: grid_exp_def)
qed

lemma grid_exp_small:
  fixes y :: real
  assumes "0 \<le> y" and "y < 2 ^ 24"
  shows "grid_exp y = 0"
proof -
  have "\<lfloor>y\<rfloor> < 2 ^ nat 24" using assms by (simp add: floor_less_power)
  then have "bitlen \<lfloor>y\<rfloor> \<le> 24" by (simp add: bitlen_le_iff_power)
  then show ?thesis by (simp add: grid_exp_def)
qed

text \<open>Every non-negative value lies below 2 ^ 24 or in one binade above.\<close>

lemma binade_cases:
  fixes y :: real
  assumes "0 \<le> y"
  obtains (small) "y < 2 ^ 24" | (binade) k where "2 ^ (k + 24) \<le> y" "y < 2 ^ (k + 25)"
proof (cases "y < 2 ^ 24")
  case True
  then show ?thesis by (rule small)
next
  case False
  then have pos: "0 < \<lfloor>y\<rfloor>" by (simp add: not_less less_floor_iff)
  define b where "b = nat (bitlen \<lfloor>y\<rfloor>)"
  have "1 \<le> bitlen \<lfloor>y\<rfloor>" using pos by (simp add: bitlen_ge_iff_power)
  then have nb: "nat (bitlen \<lfloor>y\<rfloor> - 1) = b - 1" by (simp add: b_def nat_diff_distrib)
  from bitlen_bounds [OF pos] have lo: "2 ^ (b - 1) \<le> \<lfloor>y\<rfloor>" and hi: "\<lfloor>y\<rfloor> < 2 ^ b"
    unfolding nb by (simp_all add: b_def)
  have "(2::int) ^ 24 \<le> \<lfloor>y\<rfloor>" using False by (simp add: power_le_floor not_less)
  with hi have "(2::int) ^ 24 < 2 ^ b" by linarith
  then have b: "24 < b" using power_strict_increasing_iff [of "2::int" 24 b] by simp
  define k where "k = b - 25"
  have kb: "k + 24 = b - 1" "k + 25 = b" using b by (simp_all add: k_def)
  have "2 ^ (k + 24) \<le> y" using lo unfolding kb by (simp add: power_le_floor)
  moreover have "y < 2 ^ (k + 25)" using hi assms unfolding kb by (simp add: floor_less_power)
  ultimately show ?thesis by (rule binade)
qed

lemma round_scaled_small:
  fixes y :: real
  assumes "0 \<le> y" and "y < 2 ^ 24"
  shows "round_scaled y = of_int (rne y)"
  by (simp add: round_scaled_def grid_exp_small [OF assms])

lemma round_scaled_binade:
  fixes y :: real
  assumes "2 ^ (k + 23) \<le> y" and "y < 2 ^ (k + 24)"
  shows "round_scaled y = of_int (rne (y / 2 ^ k)) * 2 ^ k"
  by (simp add: round_scaled_def grid_exp_binade [OF assms])

lemma round_scaled_small_bounds:
  fixes y :: real
  assumes "0 \<le> y" and "y < 2 ^ 24"
  shows "round_scaled y \<le> 2 ^ 24"
proof -
  have "y \<le> of_int (2 ^ 24)" using assms(2) by simp
  then have "rne y \<le> 2 ^ 24" by (rule rne_le)
  then have "real_of_int (rne y) \<le> real_of_int (2 ^ 24)" by (simp only: of_int_le_iff)
  then show ?thesis by (simp add: round_scaled_small [OF assms])
qed

lemma round_scaled_binade_bounds:
  fixes y :: real
  assumes "2 ^ (k + 23) \<le> y" and "y < 2 ^ (k + 24)"
  shows "2 ^ (k + 23) \<le> round_scaled y" and "round_scaled y \<le> 2 ^ (k + 24)"
proof -
  have "of_int (2 ^ 23) \<le> y / 2 ^ k"
    using assms(1) by (simp add: pos_le_divide_eq power_add mult.commute)
  then have "2 ^ 23 \<le> rne (y / 2 ^ k)" by (rule rne_ge)
  then have "real_of_int (2 ^ 23) \<le> real_of_int (rne (y / 2 ^ k))" by (simp only: of_int_le_iff)
  then have "2 ^ 23 * 2 ^ k \<le> real_of_int (rne (y / 2 ^ k)) * 2 ^ k" by simp
  then show "2 ^ (k + 23) \<le> round_scaled y"
    by (simp add: round_scaled_binade [OF assms] power_add mult.commute)
  have "y / 2 ^ k \<le> of_int (2 ^ 24)"
    using assms(2) by (simp add: pos_divide_le_eq power_add mult.commute)
  then have "rne (y / 2 ^ k) \<le> 2 ^ 24" by (rule rne_le)
  then have "real_of_int (rne (y / 2 ^ k)) \<le> real_of_int (2 ^ 24)" by (simp only: of_int_le_iff)
  then have "real_of_int (rne (y / 2 ^ k)) * 2 ^ k \<le> 2 ^ 24 * 2 ^ k" by simp
  then show "round_scaled y \<le> 2 ^ (k + 24)"
    by (simp add: round_scaled_binade [OF assms] power_add mult.commute)
qed

lemma round_scaled_mono:
  fixes y :: real
  assumes "0 \<le> y" and "y \<le> y'"
  shows "round_scaled y \<le> round_scaled y'"
proof -
  have y': "0 \<le> y'" using assms by linarith
  from assms(1) show ?thesis
  proof (cases rule: binade_cases)
    case small
    from y' show ?thesis
    proof (cases rule: binade_cases)
      case small': small
      have "rne y \<le> rne y'" using assms(2) by (rule rne_mono)
      then show ?thesis
        by (simp add: round_scaled_small [OF assms(1) small] round_scaled_small [OF y' small'])
    next
      case (binade k')
      have b: "2 ^ (Suc k' + 23) \<le> y'" "y' < 2 ^ (Suc k' + 24)" using binade by (simp_all add: add.commute)
      have "round_scaled y \<le> 2 ^ 24" using assms(1) small by (rule round_scaled_small_bounds)
      also have "(2::real) ^ 24 \<le> 2 ^ (Suc k' + 23)" by (rule power_increasing) simp_all
      also have "\<dots> \<le> round_scaled y'" using b by (rule round_scaled_binade_bounds(1))
      finally show ?thesis .
    qed
  next
    case (binade k)
    have b: "2 ^ (Suc k + 23) \<le> y" "y < 2 ^ (Suc k + 24)" using binade by (simp_all add: add.commute)
    have "\<not> y' < 2 ^ 24"
    proof
      assume "y' < 2 ^ 24"
      moreover have "(2::real) ^ 24 \<le> 2 ^ (k + 24)" by (rule power_increasing) simp_all
      ultimately show False using binade(1) assms(2) by linarith
    qed
    then obtain k' where binade': "2 ^ (k' + 24) \<le> y'" "y' < 2 ^ (k' + 25)"
      using binade_cases [OF y'] by blast
    have b': "2 ^ (Suc k' + 23) \<le> y'" "y' < 2 ^ (Suc k' + 24)" using binade' by (simp_all add: add.commute)
    have "(2::real) ^ (k + 24) < 2 ^ (k' + 25)" using binade(1) binade'(2) assms(2) by linarith
    then have "k + 24 < k' + 25" using power_strict_increasing_iff [of "2::real" "k + 24" "k' + 25"] by simp
    then consider (same) "k = k'" | (less) "Suc k \<le> k'" by linarith
    then show ?thesis
    proof cases
      case same
      have "y / 2 ^ Suc k \<le> y' / 2 ^ Suc k" using assms(2) by (simp add: divide_right_mono)
      then have "rne (y / 2 ^ Suc k) \<le> rne (y' / 2 ^ Suc k)" by (rule rne_mono)
      then have "real_of_int (rne (y / 2 ^ Suc k)) * 2 ^ Suc k \<le> real_of_int (rne (y' / 2 ^ Suc k)) * 2 ^ Suc k"
        by simp
      then show ?thesis
        by (simp only: round_scaled_binade [OF b] round_scaled_binade [OF b', folded same])
    next
      case less
      have "round_scaled y \<le> 2 ^ (Suc k + 24)" using b by (rule round_scaled_binade_bounds(2))
      also have "(2::real) ^ (Suc k + 24) \<le> 2 ^ (Suc k' + 23)"
        using less by (intro power_increasing) simp_all
      also have "\<dots> \<le> round_scaled y'" using b' by (rule round_scaled_binade_bounds(1))
      finally show ?thesis .
    qed
  qed
qed

lemma round_scaled_exact:
  assumes "0 \<le> m" and "m < 2 ^ 24"
  shows "round_scaled (of_int m * 2 ^ j) = of_int m * 2 ^ j"
proof -
  let ?y = "real_of_int m * 2 ^ j"
  have y0: "0 \<le> ?y" using assms(1) by simp
  have int: "?y = of_int (m * 2 ^ j)" by simp
  from y0 show ?thesis
  proof (cases rule: binade_cases)
    case small
    show ?thesis unfolding round_scaled_small [OF y0 small] by (simp only: int rne_of_int)
  next
    case (binade k)
    have b: "2 ^ (Suc k + 23) \<le> ?y" "?y < 2 ^ (Suc k + 24)" using binade by (simp_all add: add.commute)
    have "real_of_int m < real_of_int (2 ^ 24)" using assms(2) by (simp only: of_int_less_iff)
    then have "real_of_int m < 2 ^ 24" by simp
    then have "?y < 2 ^ 24 * 2 ^ j" by simp
    also have "\<dots> = 2 ^ (24 + j)" by (simp only: power_add)
    finally have "(2::real) ^ (k + 24) < 2 ^ (24 + j)" using binade(1) by linarith
    then have "k + 24 < 24 + j" using power_strict_increasing_iff [of "2::real" "k + 24" "24 + j"] by simp
    then have "k < j" by simp
    then obtain d where "j = Suc (k + d)" using less_imp_Suc_add by blast
    then have j: "j = Suc k + d" by simp
    have "?y / 2 ^ Suc k = of_int (m * 2 ^ d)" by (simp add: j power_add)
    then have "rne (?y / 2 ^ Suc k) = m * 2 ^ d" by (simp only: rne_of_int)
    then show ?thesis unfolding round_scaled_binade [OF b] by (simp add: j power_add)
  qed
qed


lemma round_scaled_0: "round_scaled 0 = 0"
  using round_scaled_exact [of 0 0] by simp

lemma fl_0: "fl 0 = 0"
  by (simp add: fl_def)

lemma fl_minus: "fl (- x) = - fl x"
  by (simp add: fl_def sgn_minus)

lemma fl_pos_eq:
  assumes "0 \<le> x"
  shows "fl x = round_scaled (x * 2 ^ 149) / 2 ^ 149"
proof (cases "x = 0")
  case True
  then show ?thesis by (simp add: fl_def round_scaled_0)
next
  case False
  with assms have "0 < x" by simp
  then show ?thesis by (simp add: fl_def)
qed

lemma fl_nonneg:
  assumes "0 \<le> x"
  shows "0 \<le> fl x"
proof -
  have "0 \<le> round_scaled (x * 2 ^ 149)" using assms by (intro round_scaled_nonneg) simp
  then show ?thesis by (simp add: fl_pos_eq [OF assms])
qed

lemma fl_nonpos:
  assumes "x \<le> 0"
  shows "fl x \<le> 0"
  using fl_nonneg [of "- x"] assms by (simp add: fl_minus)

lemma fl_mono_nonneg:
  assumes "0 \<le> x" and "x \<le> y"
  shows "fl x \<le> fl y"
proof -
  have y: "0 \<le> y" using assms by linarith
  have "round_scaled (x * 2 ^ 149) \<le> round_scaled (y * 2 ^ 149)"
    using assms by (intro round_scaled_mono) simp_all
  then show ?thesis by (simp add: fl_pos_eq [OF assms(1)] fl_pos_eq [OF y] divide_right_mono)
qed

lemma fl_mono:
  assumes "x \<le> y"
  shows "fl x \<le> fl y"
proof (cases "0 \<le> x")
  case True
  then show ?thesis using assms by (rule fl_mono_nonneg)
next
  case neg: False
  show ?thesis
  proof (cases "0 \<le> y")
    case True
    have "fl x \<le> 0" using neg by (intro fl_nonpos) simp
    also have "0 \<le> fl y" using True by (rule fl_nonneg)
    finally show ?thesis .
  next
    case False
    then have "fl (- y) \<le> fl (- x)" using assms by (intro fl_mono_nonneg) simp_all
    then show ?thesis by (simp add: fl_minus)
  qed
qed

text \<open>Values with a 24-bit significand are represented exactly.\<close>

lemma fl_exact_nonneg:
  assumes "0 \<le> m" and "m < 2 ^ 24" and "j \<le> 149"
  shows "fl (of_int m * 2 ^ i / 2 ^ j) = of_int m * 2 ^ i / 2 ^ j"
proof -
  let ?x = "real_of_int m * 2 ^ i / 2 ^ j"
  have x: "0 \<le> ?x" using assms(1) by simp
  have p: "(2::real) ^ 149 = 2 ^ j * 2 ^ (149 - j)"
    using assms(3) by (simp flip: power_add)
  have "?x * 2 ^ 149 = real_of_int m * 2 ^ (i + (149 - j))"
    unfolding p by (simp add: power_add)
  then have "round_scaled (?x * 2 ^ 149) = ?x * 2 ^ 149"
    using round_scaled_exact [OF assms(1,2), of "i + (149 - j)"] by simp
  then show ?thesis unfolding fl_pos_eq [OF x] by simp
qed

lemma fl_exact:
  assumes "\<bar>m\<bar> < 2 ^ 24" and "j \<le> 149"
  shows "fl (of_int m * 2 ^ i / 2 ^ j) = of_int m * 2 ^ i / 2 ^ j"
proof (cases "0 \<le> m")
  case True
  then show ?thesis using assms by (intro fl_exact_nonneg) simp_all
next
  case False
  then have "fl (of_int (- m) * 2 ^ i / 2 ^ j) = of_int (- m) * 2 ^ i / 2 ^ j"
    using assms by (intro fl_exact_nonneg) simp_all
  then show ?thesis by (simp add: fl_minus)
qed

lemma fl_of_int:
  assumes "\<bar>m\<bar> < 2 ^ 24"
  shows "fl (of_int m) = of_int m"
  using fl_exact [OF assms, of 0 0] by simp

lemma fl_dyadic:
  assumes "\<bar>m\<bar> < 2 ^ 24" and "j \<le> 149"
  shows "fl (of_int m / 2 ^ j) = of_int m / 2 ^ j"
  using fl_exact [OF assms, of 0] by simp

lemma fl_int_pow:
  assumes "\<bar>m\<bar> < 2 ^ 24"
  shows "fl (of_int m * 2 ^ i) = of_int m * 2 ^ i"
  using fl_exact [OF assms, of 0 i] by simp

text \<open>Evaluation of the rounding once the binade of the argument is known.\<close>

lemma fl_eval:
  assumes "2 ^ 23 \<le> x * 2 ^ j" and "x * 2 ^ j < 2 ^ 24" and "j \<le> 149"
  shows "fl x = of_int (rne (x * 2 ^ j)) / 2 ^ j"
proof -
  define k where "k = 149 - j"
  have p: "(2::real) ^ 149 = 2 ^ j * 2 ^ k"
    using assms(3) by (simp add: k_def flip: power_add)
  have "0 < x * 2 ^ j" using assms(1) by (rule less_le_trans [rotated]) simp
  then have x: "0 \<le> x" by (simp add: zero_less_mult_iff)
  have y: "x * 2 ^ 149 = (x * 2 ^ j) * 2 ^ k" unfolding p by simp
  have lo: "2 ^ (k + 23) \<le> x * 2 ^ 149"
    unfolding y using assms(1) by (simp add: power_add mult.commute)
  have hi: "x * 2 ^ 149 < 2 ^ (k + 24)"
    unfolding y using assms(2) by (simp add: power_add mult.commute)
  have d: "x * 2 ^ 149 / 2 ^ k = x * 2 ^ j" unfolding y by simp
  have e: "round_scaled (x * 2 ^ 149) = of_int (rne (x * 2 ^ j)) * 2 ^ k"
    unfolding round_scaled_binade [OF lo hi] by (simp only: d)
  show ?thesis
    unfolding fl_pos_eq [OF x] e unfolding p by simp
qed

lemma fl_eval_big:
  assumes "2 ^ 23 \<le> x / 2 ^ k" and "x / 2 ^ k < 2 ^ 24"
  shows "fl x = of_int (rne (x / 2 ^ k)) * 2 ^ k"
proof -
  have "0 < x / 2 ^ k" using assms(1) by (rule less_le_trans [rotated]) simp
  then have x: "0 \<le> x" by (simp add: zero_less_divide_iff)
  have lo: "2 ^ (k + 149 + 23) \<le> x * 2 ^ 149"
    using assms(1) by (simp add: power_add pos_le_divide_eq mult.commute)
  have hi: "x * 2 ^ 149 < 2 ^ (k + 149 + 24)"
    using assms(2) by (simp add: power_add pos_divide_less_eq mult.commute)
  have d: "x * 2 ^ 149 / 2 ^ (k + 149) = x / 2 ^ k" unfolding power_add by simp
  have e: "round_scaled (x * 2 ^ 149) = of_int (rne (x / 2 ^ k)) * 2 ^ (k + 149)"
    unfolding round_scaled_binade [OF lo hi] by (simp only: d)
  show ?thesis
    unfolding fl_pos_eq [OF x] e unfolding power_add by simp
qed

lemma rne_eval:
  assumes "of_int n - 1 / 2 < x" and "x < of_int n + 1 / 2"
  shows "rne x = n"
proof -
  consider "\<lfloor>x\<rfloor> = n" | "\<lfloor>x\<rfloor> = n - 1" using assms by linarith
  then show ?thesis
  proof cases
    case 1
    then show ?thesis using assms by (simp add: rne_def Let_def)
  next
    case 2
    then show ?thesis using assms by (simp add: rne_def Let_def)
  qed
qed


lemma fl_evalI:
  assumes "2 ^ 23 \<le> x * 2 ^ j" and "x * 2 ^ j < 2 ^ 24" and "j \<le> 149"
    and "of_int n - 1 / 2 < x * 2 ^ j" and "x * 2 ^ j < of_int n + 1 / 2"
  shows "fl x = of_int n / 2 ^ j"
  unfolding fl_eval [OF assms(1-3)] rne_eval [OF assms(4,5)] ..

lemma fl_evalI_big:
  assumes "2 ^ 23 \<le> x / 2 ^ k" and "x / 2 ^ k < 2 ^ 24"
    and "of_int n - 1 / 2 < x / 2 ^ k" and "x / 2 ^ k < of_int n + 1 / 2"
  shows "fl x = of_int n * 2 ^ k"
  unfolding fl_eval_big [OF assms(1,2)] rne_eval [OF assms(3,4)] ..

text \<open>The decimal literals of the source as binary32 values.\<close>

lemma fl_0_3: "fl 0.3 = 10066330 / 2 ^ 25"
  using fl_evalI [of "3 / 10" 25 10066330] by simp

lemma fl_0_2: "fl 0.2 = 13421773 / 2 ^ 26"
  using fl_evalI [of "2 / 10" 26 13421773] by simp

lemma fl_0_4: "fl 0.4 = 13421773 / 2 ^ 25"
  using fl_evalI [of "4 / 10" 25 13421773] by simp

lemma fl_0_6: "fl 0.6 = 10066330 / 2 ^ 24"
  using fl_evalI [of "6 / 10" 24 10066330] by simp

lemma fl_0_7: "fl 0.7 = 11744051 / 2 ^ 24"
  using fl_evalI [of "7 / 10" 24 11744051] by simp

lemma fl_0_1: "fl 0.1 = 13421773 / 2 ^ 27"
  using fl_evalI [of "1 / 10" 27 13421773] by simp

lemma fl_0_05: "fl 0.05 = 13421773 / 2 ^ 28"
  using fl_evalI [of "5 / 100" 28 13421773] by simp

lemma fl_0_158: "fl 0.158 = 10603201 / 2 ^ 26"
  using fl_evalI [of "158 / 1000" 26 10603201] by simp

lemma fl_0_9: "fl 0.9 = 15099494 / 2 ^ 24"
  using fl_evalI [of "9 / 10" 24 15099494] by simp

lemmas fl_literals = fl_0_3 fl_0_2 fl_0_4 fl_0_6 fl_0_7 fl_0_1 fl_0_05 fl_0_158 fl_0_9

lemma fl_1: "fl 1 = 1"
  using fl_of_int [of 1] by simp


lemma fl_half: "fl (1 / 2) = 1 / 2"
  using fl_dyadic [of 1 1] by simp


text \<open>Bounds that are floats themselves are kept by the rounding.\<close>

lemma fl_le: "x \<le> u \<Longrightarrow> fl u = u \<Longrightarrow> fl x \<le> u"
  using fl_mono [of x u] by simp

lemma fl_ge: "l \<le> x \<Longrightarrow> fl l = l \<Longrightarrow> l \<le> fl x"
  using fl_mono [of l x] by simp





lemma fmul_nonneg: "0 \<le> a \<Longrightarrow> 0 \<le> b \<Longrightarrow> 0 \<le> fmul a b"
  unfolding fmul_def by (rule fl_nonneg) simp

lemma fdiv_nonneg: "0 \<le> a \<Longrightarrow> 0 \<le> b \<Longrightarrow> 0 \<le> fdiv a b"
  unfolding fdiv_def by (rule fl_nonneg) simp


lemmas PARAM_defs = PARAM_MOTION_def PARAM_MEMORY_def PARAM_REGISTER_def PARAM_DIRECTION_def
  PARAM_PHRASE_def PARAM_ENERGY_def PARAM_RANGE_WIDTH_def PARAM_LEARN_TIMEOUT_def

subsection \<open>Tendency analysis\<close>

lemma interval_scan_fold: "interval_scan ns t = fold count_interval (intervals ns) t"
  by (induction ns t rule: interval_scan.induct) simp_all


lemma count_interval_fields:
  "ascending_count (count_interval d t) = ascending_count t + (if d > 0 then 1 else 0)"
  "descending_count (count_interval d t) = descending_count t + (if d < 0 then 1 else 0)"
  "repeat_count (count_interval d t) = repeat_count t + (if d = 0 then 1 else 0)"
  "total_intervals (count_interval d t) = total_intervals t + 1"
  "interval_counts (count_interval d t) =
     (interval_counts t)[nat (saturated d) := interval_counts t ! nat (saturated d) + 1]"
  "register_center (count_interval d t) = register_center t"
  "register_range (count_interval d t) = register_range t"
  "register_min (count_interval d t) = register_min t"
  "register_max (count_interval d t) = register_max t"
  "most_common_interval (count_interval d t) = most_common_interval t"
  "second_common_interval (count_interval d t) = second_common_interval t"
  by (auto simp: count_interval_def Let_def saturated_def min_def)

lemma saturated_range: "0 \<le> saturated d" "saturated d \<le> 12"
  by (simp_all add: saturated_def)

lemma sum_list_bump:
  fixes xs :: "int list"
  shows "k < length xs \<Longrightarrow> sum_list (xs[k := xs ! k + 1]) = sum_list xs + 1"
  by (induction xs arbitrary: k) (auto split: nat.splits)

lemma fold_count_interval_length:
  "length (interval_counts (fold count_interval ds t)) = length (interval_counts t)"
  by (induction ds arbitrary: t) (simp_all add: count_interval_fields)

lemma fold_count_interval_sum:
  "length (interval_counts t) = 13 \<Longrightarrow>
   sum_list (interval_counts (fold count_interval ds t)) = sum_list (interval_counts t) + int (length ds)"
proof (induction ds arbitrary: t)
  case Nil
  then show ?case by simp
next
  case (Cons d ds)
  have "nat (saturated d) < 13" using saturated_range [of d] by linarith
  with Cons.prems have "sum_list (interval_counts (count_interval d t)) = sum_list (interval_counts t) + 1"
    by (simp add: count_interval_fields sum_list_bump)
  moreover have "length (interval_counts (count_interval d t)) = 13"
    using Cons.prems by (simp add: count_interval_fields)
  ultimately show ?case using Cons.IH [of "count_interval d t"] by simp
qed

lemma fold_count_interval_bin:
  "length (interval_counts t) = 13 \<Longrightarrow> k < 13 \<Longrightarrow>
   interval_counts (fold count_interval ds t) ! k =
     interval_counts t ! k + occurrences (\<lambda>d. saturated d = int k) ds"
proof (induction ds arbitrary: t)
  case Nil
  then show ?case by (simp add: occurrences_def)
next
  case (Cons d ds)
  have r: "nat (saturated d) < 13" "0 \<le> saturated d" using saturated_range [of d] by linarith+
  have len: "length (interval_counts (count_interval d t)) = 13"
    using Cons.prems by (simp add: count_interval_fields)
  have "interval_counts (count_interval d t) ! k =
          interval_counts t ! k + (if saturated d = int k then 1 else 0)"
    using Cons.prems r by (auto simp: count_interval_fields nth_list_update)
  then show ?case using Cons.IH [OF len Cons.prems(2)] by (simp add: occurrences_def)
qed

lemma fold_count_interval_directions:
  "ascending_count (fold count_interval ds t) = ascending_count t + occurrences (\<lambda>d. d > 0) ds"
  "descending_count (fold count_interval ds t) = descending_count t + occurrences (\<lambda>d. d < 0) ds"
  "repeat_count (fold count_interval ds t) = repeat_count t + occurrences (\<lambda>d. d = 0) ds"
  "total_intervals (fold count_interval ds t) = total_intervals t + int (length ds)"
  by (induction ds arbitrary: t) (simp_all add: count_interval_fields occurrences_def)

lemma fold_count_interval_frame:
  "register_center (fold count_interval ds t) = register_center t"
  "register_range (fold count_interval ds t) = register_range t"
  "register_min (fold count_interval ds t) = register_min t"
  "register_max (fold count_interval ds t) = register_max t"
  "most_common_interval (fold count_interval ds t) = most_common_interval t"
  "second_common_interval (fold count_interval ds t) = second_common_interval t"
  by (induction ds arbitrary: t) (simp_all add: count_interval_fields)


lemma register_step_fields:
  "snd (register_step n p) = snd p + real (unat n)"
  "interval_counts (fst (register_step n p)) = interval_counts (fst p)"
  "total_intervals (fst (register_step n p)) = total_intervals (fst p)"
  "ascending_count (fst (register_step n p)) = ascending_count (fst p)"
  "descending_count (fst (register_step n p)) = descending_count (fst p)"
  "repeat_count (fst (register_step n p)) = repeat_count (fst p)"
  "most_common_interval (fst (register_step n p)) = most_common_interval (fst p)"
  "second_common_interval (fst (register_step n p)) = second_common_interval (fst p)"
  by (cases p; simp add: register_step_def Let_def)+

lemma fold_register_step_fields:
  "snd (fold register_step ns p) = snd p + sum_list (map (\<lambda>n. real (unat n)) ns)"
  "interval_counts (fst (fold register_step ns p)) = interval_counts (fst p)"
  "total_intervals (fst (fold register_step ns p)) = total_intervals (fst p)"
  "ascending_count (fst (fold register_step ns p)) = ascending_count (fst p)"
  "descending_count (fst (fold register_step ns p)) = descending_count (fst p)"
  "repeat_count (fst (fold register_step ns p)) = repeat_count (fst p)"
  "most_common_interval (fst (fold register_step ns p)) = most_common_interval (fst p)"
  "second_common_interval (fst (fold register_step ns p)) = second_common_interval (fst p)"
  by (induction ns arbitrary: p) (simp_all add: register_step_fields)

lemma common_step_frame:
  "common_step i (t, a, b) = (t', a', b') \<Longrightarrow>
     interval_counts t' = interval_counts t \<and> total_intervals t' = total_intervals t \<and>
     ascending_count t' = ascending_count t \<and> descending_count t' = descending_count t \<and>
     repeat_count t' = repeat_count t \<and> register_center t' = register_center t \<and>
     register_range t' = register_range t \<and> register_min t' = register_min t \<and>
     register_max t' = register_max t"
  by (auto simp: common_step_def split: if_splits)

lemma fold_common_step_frame:
  "fold common_step is (t, a, b) = (t', a', b') \<Longrightarrow>
     interval_counts t' = interval_counts t \<and> total_intervals t' = total_intervals t \<and>
     ascending_count t' = ascending_count t \<and> descending_count t' = descending_count t \<and>
     repeat_count t' = repeat_count t \<and> register_center t' = register_center t \<and>
     register_range t' = register_range t \<and> register_min t' = register_min t \<and>
     register_max t' = register_max t"
proof (induction "is" arbitrary: t a b)
  case Nil
  then show ?case by simp
next
  case (Cons i "is")
  obtain t1 a1 b1 where st: "common_step i (t, a, b) = (t1, a1, b1)"
    by (cases "common_step i (t, a, b)")
  from Cons.prems have "fold common_step is (t1, a1, b1) = (t', a', b')" by (simp add: st)
  from Cons.IH [OF this] common_step_frame [OF st] show ?case by simp
qed

lemma find_common_intervals_frame:
  "interval_counts (find_common_intervals t) = interval_counts t"
  "total_intervals (find_common_intervals t) = total_intervals t"
  "ascending_count (find_common_intervals t) = ascending_count t"
  "descending_count (find_common_intervals t) = descending_count t"
  "repeat_count (find_common_intervals t) = repeat_count t"
  "register_center (find_common_intervals t) = register_center t"
  "register_range (find_common_intervals t) = register_range t"
  "register_min (find_common_intervals t) = register_min t"
  "register_max (find_common_intervals t) = register_max t"
proof -
  obtain t' a' b' where st: "fold common_step [0..<13] (t, 0, 0) = (t', a', b')"
    by (cases "fold common_step [0..<13] (t, 0, 0)")
  from fold_common_step_frame [OF st]
  show "interval_counts (find_common_intervals t) = interval_counts t"
  "total_intervals (find_common_intervals t) = total_intervals t"
  "ascending_count (find_common_intervals t) = ascending_count t"
  "descending_count (find_common_intervals t) = descending_count t"
  "repeat_count (find_common_intervals t) = repeat_count t"
  "register_center (find_common_intervals t) = register_center t"
  "register_range (find_common_intervals t) = register_range t"
  "register_min (find_common_intervals t) = register_min t"
  "register_max (find_common_intervals t) = register_max t"
    by (simp_all add: find_common_intervals_def st)
qed

text \<open>The analysis of at least two notes, field by field.\<close>

lemma analyze_body_fields:
  fixes buffer :: "u8 list" and n :: int
  assumes "2 \<le> n"
  defines "ns \<equiv> take (nat n) buffer"
  defines "t \<equiv> analyze_body buffer n empty_tendencies"
  shows "length (interval_counts t) = 13"
    and "sum_list (interval_counts t) = int (length (intervals ns))"
    and "\<forall>k<13. interval_counts t ! k = occurrences (\<lambda>d. saturated d = int k) (intervals ns)"
    and "ascending_count t = occurrences (\<lambda>d. d > 0) (intervals ns)"
    and "descending_count t = occurrences (\<lambda>d. d < 0) (intervals ns)"
    and "repeat_count t = occurrences (\<lambda>d. d = 0) (intervals ns)"
    and "total_intervals t = int (length (intervals ns))"
    and "register_center t = sum_list (map (\<lambda>n. real (unat n)) ns) / real_of_int n"
    and "register_range t = real_of_int (uint (register_max t) - uint (register_min t))"
proof -
  let ?t1 = "empty_tendencies\<lparr>register_min := 127, register_max := 0\<rparr>"
  obtain t2 x where f: "fold register_step ns (?t1, 0) = (t2, x)"
    by (cases "fold register_step ns (?t1, 0)")
  let ?t4 = "t2\<lparr>register_center := x / real_of_int n,
                 register_range := real_of_int (uint (register_max t2) - uint (register_min t2))\<rparr>"
  have t: "t = find_common_intervals (fold count_interval (intervals ns) ?t4)"
    using assms(1) f by (simp add: t_def analyze_body_def Let_def ns_def interval_scan_fold)
  note r = fold_register_step_fields [of ns "(?t1, 0)", unfolded f, simplified]
  have e: "ascending_count empty_tendencies = 0" "descending_count empty_tendencies = 0"
    "repeat_count empty_tendencies = 0" "total_intervals empty_tendencies = 0"
    by (simp_all add: empty_tendencies_def)
  show "ascending_count t = occurrences (\<lambda>d. d > 0) (intervals ns)"
    by (simp add: t find_common_intervals_frame fold_count_interval_directions r e)
  show "descending_count t = occurrences (\<lambda>d. d < 0) (intervals ns)"
    by (simp add: t find_common_intervals_frame fold_count_interval_directions r e)
  show "repeat_count t = occurrences (\<lambda>d. d = 0) (intervals ns)"
    by (simp add: t find_common_intervals_frame fold_count_interval_directions r e)
  show "total_intervals t = int (length (intervals ns))"
    by (simp add: t find_common_intervals_frame fold_count_interval_directions r e)
  show "register_center t = sum_list (map (\<lambda>n. real (unat n)) ns) / real_of_int n"
    by (simp add: t find_common_intervals_frame fold_count_interval_frame r)
  show "register_range t = real_of_int (uint (register_max t) - uint (register_min t))"
    by (simp add: t find_common_intervals_frame fold_count_interval_frame)
  have ic: "interval_counts ?t4 = replicate 13 0"
    by (simp add: r empty_tendencies_def)
  then have len: "length (interval_counts ?t4) = 13" by simp
  show "length (interval_counts t) = 13"
    using len by (simp add: t find_common_intervals_frame fold_count_interval_length)
  show "sum_list (interval_counts t) = int (length (intervals ns))"
    using fold_count_interval_sum [OF len, of "intervals ns"]
    by (simp add: t find_common_intervals_frame r empty_tendencies_def sum_list_replicate)
  show "\<forall>k<13. interval_counts t ! k = occurrences (\<lambda>d. saturated d = int k) (intervals ns)"
  proof (intro allI impI)
    fix k :: nat assume k: "k < 13"
    show "interval_counts t ! k = occurrences (\<lambda>d. saturated d = int k) (intervals ns)"
      using fold_count_interval_bin [OF len k, of "intervals ns"] k
      by (simp add: t find_common_intervals_frame r empty_tendencies_def)
  qed
qed






lemma tendencies_analyze:
  "tendencies (analyze_learned_notes s) =
     analyze_body (note_buffer s) (note_buffer_count s) empty_tendencies"
  by (simp add: analyze_learned_notes_def)



lemma analyze_body_total:
  fixes buffer :: "u8 list" and n :: int
  assumes "2 \<le> n"
  shows "total_intervals (analyze_body buffer n t) =
           total_intervals t + int (length (intervals (take (nat n) buffer)))"
proof -
  let ?ns = "take (nat n) buffer"
  let ?t1 = "t\<lparr>register_min := 127, register_max := 0\<rparr>"
  obtain t2 x where f: "fold register_step ?ns (?t1, 0) = (t2, x)"
    by (cases "fold register_step ?ns (?t1, 0)")
  let ?t4 = "t2\<lparr>register_center := x / real_of_int n,
                 register_range := real_of_int (uint (register_max t2) - uint (register_min t2))\<rparr>"
  have a: "analyze_body buffer n t = find_common_intervals (fold count_interval (intervals ?ns) ?t4)"
    using assms f by (simp add: analyze_body_def Let_def interval_scan_fold)
  have "total_intervals t2 = total_intervals t"
    using fold_register_step_fields(3) [of ?ns "(?t1, 0)"] by (simp add: f)
  then show ?thesis
    by (simp add: a find_common_intervals_frame fold_count_interval_directions)
qed

lemma second_run_without_reset:
  assumes "2 \<le> note_buffer_count s"
  shows "total_intervals (analyze_body (note_buffer s) (note_buffer_count s)
            (tendencies (analyze_learned_notes s))) =
         2 * total_intervals (tendencies (analyze_learned_notes s))"
  using analyze_body_total [OF assms, of "note_buffer s"]
  by (simp add: tendencies_analyze empty_tendencies_def)

text \<open>
  Claim C9.  The analysis is idempotent and deterministic: a second run on the same buffer
  returns the state of the first run; whatever the tendencies held before, the run starts
  from the empty struct; the resulting tendencies are a function of the buffer and its count
  alone; and no other global changes.  The reset at entry is what keeps the counts from
  accumulating: the body of the function run on the struct a previous run left, without the
  reset, would double the interval total.
\<close>

theorem analysis_idempotent:
  "analyze_learned_notes (analyze_learned_notes s) = analyze_learned_notes s \<and>
   analyze_learned_notes (s\<lparr>tendencies := t\<rparr>) = analyze_learned_notes s \<and>
   (note_buffer s' = note_buffer s \<and> note_buffer_count s' = note_buffer_count s \<longrightarrow>
      tendencies (analyze_learned_notes s') = tendencies (analyze_learned_notes s)) \<and>
   analyze_learned_notes s = s\<lparr>tendencies := tendencies (analyze_learned_notes s)\<rparr> \<and>
   (2 \<le> note_buffer_count s \<longrightarrow>
      total_intervals (analyze_body (note_buffer s) (note_buffer_count s)
          (tendencies (analyze_learned_notes s))) =
        2 * total_intervals (tendencies (analyze_learned_notes s)))"
proof -
  have a: "analyze_learned_notes (analyze_learned_notes s) = analyze_learned_notes s"
    and b: "analyze_learned_notes (s\<lparr>tendencies := t\<rparr>) = analyze_learned_notes s"
    and c: "note_buffer s' = note_buffer s \<and> note_buffer_count s' = note_buffer_count s \<longrightarrow>
      tendencies (analyze_learned_notes s') = tendencies (analyze_learned_notes s)"
    and d: "analyze_learned_notes s = s\<lparr>tendencies := tendencies (analyze_learned_notes s)\<rparr>"
    by (simp_all add: analyze_learned_notes_def)
  from a b c d second_run_without_reset [of s] show ?thesis by blast
qed

theorem analysis_idempotent_witness:
  "(let s = with_buffer [48, 60, 72, 60, 48] (initial_state default_controls);
        s' = s\<lparr>current_note := 72, rng_state := 7\<rparr>
    in note_buffer s' = note_buffer s \<and> note_buffer_count s' = note_buffer_count s \<and>
       tendencies (analyze_learned_notes s') = tendencies (analyze_learned_notes s) \<and>
       analyze_learned_notes (analyze_learned_notes s) = analyze_learned_notes s \<and>
       2 \<le> note_buffer_count s \<and>
       total_intervals (analyze_body (note_buffer s) (note_buffer_count s)
           (tendencies (analyze_learned_notes s))) =
         2 * total_intervals (tendencies (analyze_learned_notes s)))"
proof -
  let ?s = "with_buffer [48, 60, 72, 60, 48] (initial_state default_controls)"
  let ?s' = "?s\<lparr>current_note := 72, rng_state := 7\<rparr>"
  have h: "note_buffer ?s' = note_buffer ?s \<and> note_buffer_count ?s' = note_buffer_count ?s"
    by simp
  have n: "2 \<le> note_buffer_count ?s" by (simp add: with_buffer_def)
  from analysis_idempotent [of ?s empty_tendencies ?s'] h n show ?thesis
    unfolding Let_def by blast
qed

subsection \<open>The scan for the two most common intervals\<close>

lemma common_inv_start:
  "most_common_interval t = 0 \<Longrightarrow> second_common_interval t = 0 \<Longrightarrow>
   common_inv (interval_counts t) 0 (t, 0, 0)"
  by (simp add: common_inv_def)

lemma common_inv_step:
  assumes inv: "common_inv c n (t, mx, smx)" and nonneg: "0 \<le> c ! n"
  shows "common_inv c (Suc n) (common_step n (t, mx, smx))"
proof -
  let ?v = "c ! n"
  from inv have ic: "interval_counts t = c" and s0: "0 \<le> smx" and sm: "smx \<le> mx"
    and bound: "\<forall>j<n. c ! j \<le> mx"
    and zero: "mx = 0 \<longrightarrow> most_common_interval t = 0 \<and> second_common_interval t = 0"
    and first: "0 < mx \<longrightarrow>
           (\<exists>k<n. most_common_interval t = int k \<and> c ! k = mx \<and> (\<forall>j<k. c ! j < mx) \<and>
                  (\<forall>j<n. j \<noteq> k \<longrightarrow> c ! j \<le> smx))"
    and szero: "smx = 0 \<longrightarrow> second_common_interval t = 0"
    and second: "0 < smx \<longrightarrow>
           (\<exists>k<n. second_common_interval t = int k \<and> int k \<noteq> most_common_interval t \<and>
                  c ! k = smx \<and> (\<forall>j<k. int j \<noteq> most_common_interval t \<longrightarrow> c ! j < smx))"
    by (simp_all add: common_inv_def)
  consider (displace) "mx < ?v" | (runner) "?v \<le> mx" "smx < ?v" | (keep) "?v \<le> mx" "?v \<le> smx"
    by linarith
  then show ?thesis
  proof cases
    case displace
    have step: "common_step n (t, mx, smx) =
        (t\<lparr>second_common_interval := most_common_interval t, most_common_interval := int n\<rparr>, ?v, mx)"
      using displace by (simp add: common_step_def ic)
    have a: "\<forall>j<Suc n. c ! j \<le> ?v" using bound displace by (auto simp: less_Suc_eq)
    have b: "\<exists>k<Suc n. int n = int k \<and> c ! k = ?v \<and> (\<forall>j<k. c ! j < ?v) \<and>
                  (\<forall>j<Suc n. j \<noteq> k \<longrightarrow> c ! j \<le> mx)"
      using bound displace by (intro exI [of _ n]) (auto simp: less_Suc_eq)
    have c: "mx = 0 \<longrightarrow> most_common_interval t = 0" using zero by simp
    have d: "0 < mx \<longrightarrow> (\<exists>k<Suc n. most_common_interval t = int k \<and> int k \<noteq> int n \<and>
                  c ! k = mx \<and> (\<forall>j<k. int j \<noteq> int n \<longrightarrow> c ! j < mx))"
    proof
      assume "0 < mx"
      with first obtain k where k: "k < n" "most_common_interval t = int k" "c ! k = mx"
        "\<forall>j<k. c ! j < mx" by blast
      then show "\<exists>k<Suc n. most_common_interval t = int k \<and> int k \<noteq> int n \<and>
                  c ! k = mx \<and> (\<forall>j<k. int j \<noteq> int n \<longrightarrow> c ! j < mx)"
        by (intro exI [of _ k]) auto
    qed
    show ?thesis
      unfolding step common_inv_def using a b c d s0 sm displace ic by simp
  next
    case runner
    have step: "common_step n (t, mx, smx) = (t\<lparr>second_common_interval := int n\<rparr>, mx, ?v)"
      using runner by (simp add: common_step_def ic)
    have pos: "0 < mx" using runner s0 by linarith
    with first obtain k where k: "k < n" "most_common_interval t = int k" "c ! k = mx"
        "\<forall>j<k. c ! j < mx" "\<forall>j<n. j \<noteq> k \<longrightarrow> c ! j \<le> smx" by blast
    have a: "\<forall>j<Suc n. c ! j \<le> mx" using bound runner by (auto simp: less_Suc_eq)
    have b: "\<exists>k<Suc n. most_common_interval t = int k \<and> c ! k = mx \<and> (\<forall>j<k. c ! j < mx) \<and>
                  (\<forall>j<Suc n. j \<noteq> k \<longrightarrow> c ! j \<le> ?v)"
      using k runner by (intro exI [of _ k]) (auto simp: less_Suc_eq intro: order_trans less_imp_le)
    have d: "\<exists>k<Suc n. int n = int k \<and> int k \<noteq> most_common_interval t \<and>
                  c ! k = ?v \<and> (\<forall>j<k. int j \<noteq> most_common_interval t \<longrightarrow> c ! j < ?v)"
      using k runner by (intro exI [of _ n]) (auto intro: le_less_trans)
    have e: "mx \<noteq> 0" "?v \<noteq> 0" "0 < ?v" "0 \<le> ?v" using pos runner s0 by linarith+
    show ?thesis
      unfolding step common_inv_def using a b d e pos runner(1) ic by auto
  next
    case keep
    have step: "common_step n (t, mx, smx) = (t, mx, smx)"
      using keep by (simp add: common_step_def ic)
    have a: "\<forall>j<Suc n. c ! j \<le> mx" using bound keep by (auto simp: less_Suc_eq)
    have b: "0 < mx \<longrightarrow>
           (\<exists>k<Suc n. most_common_interval t = int k \<and> c ! k = mx \<and> (\<forall>j<k. c ! j < mx) \<and>
                  (\<forall>j<Suc n. j \<noteq> k \<longrightarrow> c ! j \<le> smx))"
    proof
      assume "0 < mx"
      with first obtain k where k: "k < n" "most_common_interval t = int k" "c ! k = mx"
        "\<forall>j<k. c ! j < mx" "\<forall>j<n. j \<noteq> k \<longrightarrow> c ! j \<le> smx" by blast
      then show "\<exists>k<Suc n. most_common_interval t = int k \<and> c ! k = mx \<and> (\<forall>j<k. c ! j < mx) \<and>
                  (\<forall>j<Suc n. j \<noteq> k \<longrightarrow> c ! j \<le> smx)"
        using keep by (intro exI [of _ k]) (auto simp: less_Suc_eq)
    qed
    have d: "0 < smx \<longrightarrow>
           (\<exists>k<Suc n. second_common_interval t = int k \<and> int k \<noteq> most_common_interval t \<and>
                  c ! k = smx \<and> (\<forall>j<k. int j \<noteq> most_common_interval t \<longrightarrow> c ! j < smx))"
    proof
      assume "0 < smx"
      with second obtain k where k: "k < n" "second_common_interval t = int k"
        "int k \<noteq> most_common_interval t" "c ! k = smx"
        "\<forall>j<k. int j \<noteq> most_common_interval t \<longrightarrow> c ! j < smx" by blast
      then show "\<exists>k<Suc n. second_common_interval t = int k \<and> int k \<noteq> most_common_interval t \<and>
                  c ! k = smx \<and> (\<forall>j<k. int j \<noteq> most_common_interval t \<longrightarrow> c ! j < smx)"
        by (intro exI [of _ k]) auto
    qed
    show ?thesis
      unfolding step common_inv_def using a b d zero szero s0 sm ic by simp
  qed
qed

lemma common_inv_fold:
  assumes "most_common_interval t = 0" and "second_common_interval t = 0"
    and "\<forall>j<n. 0 \<le> interval_counts t ! j"
  shows "common_inv (interval_counts t) n (fold common_step [0..<n] (t, 0, 0))"
  using assms(3)
proof (induction n)
  case 0
  show ?case using assms(1,2) by (simp add: common_inv_start)
next
  case (Suc n)
  then have inv: "common_inv (interval_counts t) n (fold common_step [0..<n] (t, 0, 0))" by simp
  obtain t' mx smx where f: "fold common_step [0..<n] (t, 0, 0) = (t', mx, smx)"
    by (cases "fold common_step [0..<n] (t, 0, 0)")
  from Suc.prems have "0 \<le> interval_counts t ! n" by simp
  from common_inv_step [OF inv [unfolded f] this] show ?case by (simp add: f)
qed

lemma scan_result:
  assumes nonneg: "\<forall>j<13. 0 \<le> interval_counts t ! j"
    and m0: "most_common_interval t = 0" and s0: "second_common_interval t = 0"
  defines "c \<equiv> interval_counts t"
  defines "t' \<equiv> find_common_intervals t"
  shows "0 \<le> most_common_interval t'" and "0 \<le> second_common_interval t'"
    and "lowest_max_bin c (nat (most_common_interval t'))"
    and "two_bins_nonempty c \<longrightarrow>
           secondary_winner c (nat (most_common_interval t')) (nat (second_common_interval t'))"
    and "\<not> two_bins_nonempty c \<longrightarrow> second_common_interval t' = 0"
proof -
  obtain u mx smx where f: "fold common_step [0..<13] (t, 0, 0) = (u, mx, smx)"
    by (cases "fold common_step [0..<13] (t, 0, 0)")
  have u: "t' = u" by (simp add: t'_def find_common_intervals_def f)
  from common_inv_fold [OF m0 s0 nonneg] have inv: "common_inv c 13 (u, mx, smx)"
    by (simp add: f c_def)
  then have sm: "0 \<le> smx" "smx \<le> mx" and bound: "\<forall>j<13. c ! j \<le> mx"
    and zero: "mx = 0 \<longrightarrow> most_common_interval u = 0 \<and> second_common_interval u = 0"
    and first: "0 < mx \<longrightarrow>
           (\<exists>k<13. most_common_interval u = int k \<and> c ! k = mx \<and> (\<forall>j<k. c ! j < mx) \<and>
                  (\<forall>j<13. j \<noteq> k \<longrightarrow> c ! j \<le> smx))"
    and szero: "smx = 0 \<longrightarrow> second_common_interval u = 0"
    and second: "0 < smx \<longrightarrow>
           (\<exists>k<13. second_common_interval u = int k \<and> int k \<noteq> most_common_interval u \<and>
                  c ! k = smx \<and> (\<forall>j<k. int j \<noteq> most_common_interval u \<longrightarrow> c ! j < smx))"
    by (simp_all add: common_inv_def)
  have nn: "\<forall>j<13. 0 \<le> c ! j" using nonneg by (simp add: c_def)
  show "0 \<le> most_common_interval t'" using zero first sm unfolding u
    by (cases "mx = 0") auto
  show "0 \<le> second_common_interval t'" using szero second sm unfolding u
    by (cases "smx = 0") auto
  show "lowest_max_bin c (nat (most_common_interval t'))"
  proof (cases "mx = 0")
    case True
    then have "\<forall>j<13. c ! j = 0" using bound nn by (metis order_antisym)
    then show ?thesis using zero True by (simp add: u lowest_max_bin_def)
  next
    case False
    then have "0 < mx" using sm by linarith
    with first obtain k where k: "k < 13" "most_common_interval u = int k" "c ! k = mx"
      "\<forall>j<k. c ! j < mx" by blast
    then show ?thesis using bound by (simp add: u lowest_max_bin_def)
  qed
  show "two_bins_nonempty c \<longrightarrow>
           secondary_winner c (nat (most_common_interval t')) (nat (second_common_interval t'))"
  proof
    assume "two_bins_nonempty c"
    then obtain i j where ij: "i < 13" "j < 13" "i \<noteq> j" "0 < c ! i" "0 < c ! j"
      by (auto simp: two_bins_nonempty_def)
    then have "0 < mx" using bound by (metis less_le_trans)
    with first obtain k where k: "k < 13" "most_common_interval u = int k" "c ! k = mx"
      "\<forall>j<13. j \<noteq> k \<longrightarrow> c ! j \<le> smx" by blast
    have "0 < smx"
    proof (cases "i = k")
      case True
      then have "j \<noteq> k" using ij(3) by simp
      then show ?thesis using k(4) ij(2,5) by (metis less_le_trans)
    next
      case False
      then show ?thesis using k(4) ij(1,4) by (metis less_le_trans)
    qed
    with second obtain k2 where k2: "k2 < 13" "second_common_interval u = int k2"
      "int k2 \<noteq> most_common_interval u" "c ! k2 = smx"
      "\<forall>j<k2. int j \<noteq> most_common_interval u \<longrightarrow> c ! j < smx" by blast
    show "secondary_winner c (nat (most_common_interval t')) (nat (second_common_interval t'))"
      using k k2 by (simp add: u secondary_winner_def)
  qed
  show "\<not> two_bins_nonempty c \<longrightarrow> second_common_interval t' = 0"
  proof
    assume none: "\<not> two_bins_nonempty c"
    show "second_common_interval t' = 0"
    proof (cases "smx = 0")
      case True
      then show ?thesis using szero by (simp add: u)
    next
      case False
      then have p: "0 < smx" "0 < mx" using sm by linarith+
      with first obtain k where k: "k < 13" "most_common_interval u = int k" "c ! k = mx" by blast
      from p second obtain k2 where k2: "k2 < 13" "int k2 \<noteq> most_common_interval u" "c ! k2 = smx"
        by blast
      have "k \<noteq> k2" using k(2) k2(2) by auto
      then have "two_bins_nonempty c"
        unfolding two_bins_nonempty_def using k k2 p
        by (intro bexI [of _ k] bexI [of _ k2]) simp_all
      with none show ?thesis by simp
    qed
  qed
qed

text \<open>
  Claim C5 (as amended).  For every histogram of 13 non-negative counts, scanned from the
  reset values, \<open>most_common_interval\<close> is the lowest index among the bins of maximum
  count.  When at least two bins are non-empty, \<open>second_common_interval\<close> is the lowest
  index among the bins that hold the greatest count once the most common bin is set aside;
  when at most one bin is non-empty it keeps its reset value 0.
\<close>

theorem common_intervals_tie_break:
  assumes "length (interval_counts t) = 13"
    and "\<forall>x\<in>set (interval_counts t). 0 \<le> x"
    and "most_common_interval t = 0" and "second_common_interval t = 0"
  shows "lowest_max_bin (interval_counts t) (nat (most_common_interval (find_common_intervals t))) \<and>
     0 \<le> most_common_interval (find_common_intervals t) \<and>
     0 \<le> second_common_interval (find_common_intervals t) \<and>
     (two_bins_nonempty (interval_counts t) \<longrightarrow>
        secondary_winner (interval_counts t) (nat (most_common_interval (find_common_intervals t)))
          (nat (second_common_interval (find_common_intervals t)))) \<and>
     (\<not> two_bins_nonempty (interval_counts t) \<longrightarrow>
        second_common_interval (find_common_intervals t) = 0)"
proof -
  have "\<forall>j<13. 0 \<le> interval_counts t ! j" using assms(1,2) by simp
  from scan_result [OF this assms(3,4)] show ?thesis by blast
qed

theorem common_intervals_tie_break_witness:
  "interval_counts pentatonic_histogram = [0, 0, 3, 1, 0, 0, 0, 0, 0, 0, 0, 0, 0] \<and>
   length (interval_counts pentatonic_histogram) = 13 \<and>
   most_common_interval pentatonic_histogram = 0 \<and>
   second_common_interval pentatonic_histogram = 0 \<and>
   two_bins_nonempty (interval_counts pentatonic_histogram) \<and>
   lowest_max_bin (interval_counts pentatonic_histogram)
     (nat (most_common_interval (find_common_intervals pentatonic_histogram))) \<and>
   secondary_winner (interval_counts pentatonic_histogram)
     (nat (most_common_interval (find_common_intervals pentatonic_histogram)))
     (nat (second_common_interval (find_common_intervals pentatonic_histogram)))"
proof -
  have h1: "length (interval_counts pentatonic_histogram) = 13"
    by (simp add: pentatonic_histogram_def)
  have h2: "\<forall>x\<in>set (interval_counts pentatonic_histogram). 0 \<le> x"
    by (simp add: pentatonic_histogram_def)
  have h3: "most_common_interval pentatonic_histogram = 0"
    and h4: "second_common_interval pentatonic_histogram = 0"
    by (simp_all add: pentatonic_histogram_def empty_tendencies_def)
  have h5: "two_bins_nonempty (interval_counts pentatonic_histogram)"
    unfolding two_bins_nonempty_def pentatonic_histogram_def
    by (intro bexI [of _ 2] bexI [of _ 3]) simp_all
  have h0: "interval_counts pentatonic_histogram = [0, 0, 3, 1, 0, 0, 0, 0, 0, 0, 0, 0, 0]"
    by (simp add: pentatonic_histogram_def)
  from common_intervals_tie_break [OF h1 h2 h3 h4] h0 h1 h3 h4 h5 show ?thesis by blast
qed

text \<open>
  The secondary slot is not always a runner-up: after four equal notes only bin 0 is
  non-empty, and both \<open>most_common_interval\<close> and \<open>second_common_interval\<close> are 0.
\<close>

theorem second_common_unison_counterexample:
  "most_common_interval (tendencies (analyze_learned_notes unison_phrase)) = 0 \<and>
   second_common_interval (tendencies (analyze_learned_notes unison_phrase)) = 0 \<and>
   \<not> secondary_winner (interval_counts (tendencies (analyze_learned_notes unison_phrase)))
        (nat (most_common_interval (tendencies (analyze_learned_notes unison_phrase))))
        (nat (second_common_interval (tendencies (analyze_learned_notes unison_phrase))))"
proof -
  have "most_common_interval (tendencies (analyze_learned_notes unison_phrase)) = 0"
    and "second_common_interval (tendencies (analyze_learned_notes unison_phrase)) = 0"
    by (simp_all add: unison_phrase_def with_buffer_def initial_state_def tendencies_analyze
        analyze_body_def empty_tendencies_def register_step_def count_interval_def
        find_common_intervals_def common_step_def Let_def upt_conv_Cons)
  then show ?thesis by (simp add: secondary_winner_def)
qed

subsection \<open>Session control\<close>

lemma update_learning_state_cases:
  "learning_state s = STATE_LEARNING \<Longrightarrow> learning_done now s \<Longrightarrow>
     learning_state (update_learning_state now now_seed s) = STATE_GENERATING"
  "learning_state s = STATE_LEARNING \<Longrightarrow> \<not> learning_done now s \<Longrightarrow>
     update_learning_state now now_seed s = s"
  "learning_state s \<noteq> STATE_LEARNING \<Longrightarrow> update_learning_state now now_seed s = s"
  by (simp_all add: update_learning_state_def analyze_learned_notes_def Let_def)

lemma learning_done_iff:
  "note_buffer_count s \<le> MAX_LEARN_NOTES \<Longrightarrow>
   learning_done now s \<longleftrightarrow>
     note_buffer_count s = 16 \<or>
     (learning_timeout_ms s < now - last_note_time s \<and> 4 \<le> note_buffer_count s)"
  by (auto simp: learning_done_def Let_def MAX_LEARN_NOTES_def MIN_LEARN_NOTES_def)

lemma polls_stall:
  "learning_state s = STATE_LEARNING \<Longrightarrow> note_buffer_count s < 4 \<Longrightarrow> polls ts s = s"
proof (induction ts)
  case Nil
  then show ?case by (simp add: polls_def)
next
  case (Cons p ts)
  obtain now now_seed where p: "p = (now, now_seed)" by (cases p)
  have "\<not> learning_done now s"
    using Cons.prems(2) by (simp add: learning_done_def Let_def MAX_LEARN_NOTES_def MIN_LEARN_NOTES_def)
  then have "update_learning_state now now_seed s = s"
    using Cons.prems(1) by (rule update_learning_state_cases(2) [rotated])
  then show ?case using Cons by (simp add: polls_def p)
qed

lemma note_on_learning:
  "learning_state s = STATE_LEARNING \<Longrightarrow> note_buffer_count s < 16 \<Longrightarrow>
     learning_state (note_on now1 now2 midi_note s) = STATE_LEARNING \<and>
     note_buffer_count (note_on now1 now2 midi_note s) = note_buffer_count s + 1 \<and>
     last_note_time (note_on now1 now2 midi_note s) = now2"
  by (simp add: note_on_def add_note_to_buffer_def MAX_LEARN_NOTES_def)

text \<open>
  Claim C3.  In LEARNING state, with a buffer within its capacity of 16, a poll at clock
  value \<open>now\<close> moves the session to GENERATING exactly when the buffer holds 16 notes, or
  the time since the last note (in wrapping 32-bit milliseconds) exceeds the timeout and the
  buffer holds at least 4 notes; otherwise the poll changes nothing.  The timeout is the one
  the poll computes: 500 plus the single-precision product of the LEARN TIMEOUT control and
  9500, truncated.  A full buffer does not
  wait for the timeout.  With fewer than 4 notes no run of polls, whatever the clock values,
  changes the state; a further note is appended and restarts the timer.
\<close>

theorem learning_transition:
  assumes "learning_state s = STATE_LEARNING" and "note_buffer_count s \<le> MAX_LEARN_NOTES"
  shows "(learning_state (update_learning_state now now_seed s) = STATE_GENERATING \<longleftrightarrow>
            note_buffer_count s = 16 \<or>
            (learning_timeout_ms s < now - last_note_time s \<and> 4 \<le> note_buffer_count s)) \<and>
         (learning_state (update_learning_state now now_seed s) \<noteq> STATE_GENERATING \<longrightarrow>
            update_learning_state now now_seed s = s) \<and>
         (note_buffer_count s < 4 \<longrightarrow> polls ts s = s) \<and>
         (note_buffer_count s < 16 \<longrightarrow>
            learning_state (note_on now1 now2 midi_note s) = STATE_LEARNING \<and>
            note_buffer_count (note_on now1 now2 midi_note s) = note_buffer_count s + 1 \<and>
            last_note_time (note_on now1 now2 midi_note s) = now2)"
proof (cases "learning_done now s")
  case True
  then show ?thesis
    using assms update_learning_state_cases(1) [OF assms(1) True, of now_seed]
      learning_done_iff [OF assms(2), of now] polls_stall [OF assms(1), of ts]
      note_on_learning [OF assms(1), of now1 now2 midi_note]
    by simp
next
  case False
  then show ?thesis
    using assms update_learning_state_cases(2) [OF assms(1) False, of now_seed]
      learning_done_iff [OF assms(2), of now] polls_stall [OF assms(1), of ts]
      note_on_learning [OF assms(1), of now1 now2 midi_note]
    by auto
qed

lemma three_notes_learned_fields:
  "learning_state three_notes_learned = STATE_LEARNING"
  "note_buffer_count three_notes_learned = 3"
  "last_note_time three_notes_learned = 30"
  by (simp_all add: three_notes_learned_def note_on_def start_learning_def add_note_to_buffer_def
      initial_state_def MAX_LEARN_NOTES_def Let_def)

lemma four_notes_learned_fields:
  "learning_state four_notes_learned = STATE_LEARNING"
  "note_buffer_count four_notes_learned = 4"
  "last_note_time four_notes_learned = 40"
  "parameters_smoothed four_notes_learned = default_controls"
  by (simp_all add: four_notes_learned_def three_notes_learned_def note_on_def start_learning_def
      add_note_to_buffer_def initial_state_def MAX_LEARN_NOTES_def Let_def)

text \<open>The default LEARN TIMEOUT \<open>0.158f\<close> gives 2001 ms; the control value
  \<open>7233629 / 2^32\<close>, whose exact product with 9500 is just below 16, gives 516 ms, the
  single-precision product being 16.\<close>

lemma default_timeout: "learning_timeout_ms four_notes_learned = 2001"
proof -
  have p: "parameters_smoothed four_notes_learned PARAM_LEARN_TIMEOUT = fl 0.158"
    by (simp add: four_notes_learned_fields default_controls_def)
  have e: "fmul (10603201 / 2 ^ 26) 9500 = 12296193 / 2 ^ 13"
    using fl_evalI [of "10603201 / 2 ^ 26 * 9500" 13 12296193] by (simp add: fmul_def)
  have t: "trunc (12296193 / 2 ^ 13) = 1501" by (simp add: trunc_def)
  show ?thesis unfolding learning_timeout_ms_def p fl_0_158 e t by simp
qed

lemma timeout_edge_state_fields:
  "learning_state timeout_edge_state = STATE_LEARNING"
  "note_buffer_count timeout_edge_state = 4"
  "last_note_time timeout_edge_state = 40"
  "parameters_smoothed timeout_edge_state PARAM_LEARN_TIMEOUT = 7233629 / 2 ^ 32"
  by (simp_all add: timeout_edge_state_def four_notes_learned_fields)

lemma edge_timeout: "learning_timeout_ms timeout_edge_state = 516"
proof -
  have e: "fmul (7233629 / 2 ^ 32) 9500 = 16"
    using fl_evalI [of "7233629 / 2 ^ 32 * 9500" 20 16777216] by (simp add: fmul_def)
  have t: "trunc 16 = 16" by (simp add: trunc_def)
  show ?thesis unfolding learning_timeout_ms_def timeout_edge_state_fields e t by simp
qed

theorem learning_transition_witness:
  "learning_state four_notes_learned = STATE_LEARNING \<and>
   note_buffer_count four_notes_learned \<le> MAX_LEARN_NOTES \<and>
   learning_timeout_ms four_notes_learned = 2001 \<and>
   learning_state (update_learning_state 2042 7 four_notes_learned) = STATE_GENERATING \<and>
   update_learning_state 2041 7 four_notes_learned = four_notes_learned \<and>
   learning_state timeout_edge_state = STATE_LEARNING \<and>
   note_buffer_count timeout_edge_state \<le> MAX_LEARN_NOTES \<and>
   learning_timeout_ms timeout_edge_state = 516 \<and>
   update_learning_state 556 7 timeout_edge_state = timeout_edge_state \<and>
   learning_state (update_learning_state 557 7 timeout_edge_state) = STATE_GENERATING \<and>
   learning_state three_notes_learned = STATE_LEARNING \<and>
   note_buffer_count three_notes_learned \<le> MAX_LEARN_NOTES \<and>
   polls [(2042, 7), (100000, 8)] three_notes_learned = three_notes_learned"
proof -
  have e1: "learning_state timeout_edge_state = STATE_LEARNING"
    and e2: "note_buffer_count timeout_edge_state \<le> MAX_LEARN_NOTES"
    by (simp_all add: timeout_edge_state_fields MAX_LEARN_NOTES_def)
  have d: "update_learning_state 556 7 timeout_edge_state = timeout_edge_state"
    using learning_transition [OF e1 e2, of 556 7 "[]" 0 0 0]
    by (simp add: timeout_edge_state_fields edge_timeout)
  have e: "learning_state (update_learning_state 557 7 timeout_edge_state) = STATE_GENERATING"
    using learning_transition [OF e1 e2, of 557 7 "[]" 0 0 0]
    by (simp add: timeout_edge_state_fields edge_timeout)
  have h1: "learning_state four_notes_learned = STATE_LEARNING"
    and h2: "note_buffer_count four_notes_learned \<le> MAX_LEARN_NOTES"
    by (simp_all add: four_notes_learned_fields MAX_LEARN_NOTES_def)
  have g1: "learning_state three_notes_learned = STATE_LEARNING"
    and g2: "note_buffer_count three_notes_learned \<le> MAX_LEARN_NOTES"
    by (simp_all add: three_notes_learned_fields MAX_LEARN_NOTES_def)
  have a: "learning_state (update_learning_state 2042 7 four_notes_learned) = STATE_GENERATING"
    using learning_transition [OF h1 h2, of 2042 7 "[]" 0 0 0]
    by (simp add: four_notes_learned_fields default_timeout)
  have b: "update_learning_state 2041 7 four_notes_learned = four_notes_learned"
    using learning_transition [OF h1 h2, of 2041 7 "[]" 0 0 0]
    by (simp add: four_notes_learned_fields default_timeout)
  have c: "polls [(2042, 7), (100000, 8)] three_notes_learned = three_notes_learned"
    using learning_transition [OF g1 g2, of 0 0 "[(2042, 7), (100000, 8)]" 0 0 0]
    by (simp add: three_notes_learned_fields)
  from h1 h2 g1 g2 e1 e2 a b c d e default_timeout edge_timeout show ?thesis by blast
qed

text \<open>
  Claim C8 (as amended).  An encoder click in GENERATING state sets the session to IDLE and
  the buffer count to 0.  In any other state, LEARNING included, the click leaves the session
  state and the learning buffer as they are and only returns the display to page 0.
\<close>

theorem encoder_click_reset:
  "(learning_state s = STATE_GENERATING \<longrightarrow>
      learning_state (encoder_click s) = STATE_IDLE \<and> note_buffer_count (encoder_click s) = 0) \<and>
   (learning_state s \<noteq> STATE_GENERATING \<longrightarrow>
      learning_state (encoder_click s) = learning_state s \<and>
      note_buffer_count (encoder_click s) = note_buffer_count s \<and>
      note_buffer (encoder_click s) = note_buffer s \<and>
      current_page (encoder_click s) = 0)"
  by (simp add: encoder_click_def)

theorem encoder_click_reset_witness:
  "learning_state (update_learning_state 2042 7 four_notes_learned) = STATE_GENERATING \<and>
   learning_state (encoder_click (update_learning_state 2042 7 four_notes_learned)) = STATE_IDLE \<and>
   note_buffer_count (encoder_click (update_learning_state 2042 7 four_notes_learned)) = 0 \<and>
   learning_state three_notes_learned \<noteq> STATE_GENERATING \<and>
   note_buffer_count (encoder_click three_notes_learned) = note_buffer_count three_notes_learned"
proof -
  have g: "learning_state (update_learning_state 2042 7 four_notes_learned) = STATE_GENERATING"
    by (rule update_learning_state_cases(1))
      (simp_all add: four_notes_learned_fields learning_done_def default_timeout
        MAX_LEARN_NOTES_def MIN_LEARN_NOTES_def)
  have l: "learning_state three_notes_learned \<noteq> STATE_GENERATING"
    by (simp add: three_notes_learned_fields)
  from encoder_click_reset [of "update_learning_state 2042 7 four_notes_learned"]
    encoder_click_reset [of three_notes_learned] g l
  show ?thesis by simp
qed

text \<open>
  With three notes learned the session is LEARNING; a click, alone or after a poll at a late
  clock value, leaves it LEARNING with its three notes.
\<close>

theorem encoder_click_learning_counterexample:
  "learning_state three_notes_learned = STATE_LEARNING \<and>
   learning_state (encoder_click three_notes_learned) = STATE_LEARNING \<and>
   note_buffer_count (encoder_click three_notes_learned) = 3 \<and>
   learning_state (encoder_click (update_learning_state 100000 7 three_notes_learned)) = STATE_LEARNING \<and>
   note_buffer_count (encoder_click (update_learning_state 100000 7 three_notes_learned)) = 3"
proof -
  have "update_learning_state 100000 7 three_notes_learned = three_notes_learned"
    by (rule update_learning_state_cases(2))
      (simp_all add: three_notes_learned_fields learning_done_def MAX_LEARN_NOTES_def
        MIN_LEARN_NOTES_def)
  then show ?thesis by (simp add: encoder_click_def three_notes_learned_fields)
qed

subsection \<open>The ENERGY macro\<close>

lemma clamp_ifs: "(if (if x < 0 then 0 else x) > 1 then 1 else (if x < 0 then 0 else x)) = clamp01 x"
  by (simp add: clamp01_def max_def min_def)

lemma energy_clamps:
  "energy_motion s =
     clamp01 (fadd (parameters_smoothed s PARAM_MOTION) (fmul (energy_deviation s) (fl 0.3)))"
  "energy_phrase s =
     clamp01 (fadd (parameters_smoothed s PARAM_PHRASE) (fmul (energy_deviation s) (fl 0.2)))"
  "energy_memory s =
     clamp01 (fsub (parameters_smoothed s PARAM_MEMORY) (fmul (energy_deviation s) (fl 0.3)))"
  "energy_gravity s =
     clamp01 (fsub (parameters_smoothed s PARAM_REGISTER) (fmul (energy_deviation s) (fl 0.3)))"
  "energy_range s =
     clamp01 (fadd (parameters_smoothed s PARAM_RANGE_WIDTH) (fmul (energy_deviation s) (fl 0.3)))"
  unfolding energy_motion_def energy_phrase_def energy_memory_def energy_gravity_def
    energy_range_def Let_def clamp_ifs by (rule refl)+


lemma clamp01_range: "0 \<le> clamp01 x" "clamp01 x \<le> 1"
  by (simp_all add: clamp01_def)

lemma energy_ranges:
  "0 \<le> energy_motion s" "energy_motion s \<le> 1" "0 \<le> energy_phrase s" "energy_phrase s \<le> 1"
  "0 \<le> energy_memory s" "energy_memory s \<le> 1" "0 \<le> energy_gravity s" "energy_gravity s \<le> 1"
  "0 \<le> energy_range s" "energy_range s \<le> 1"
  unfolding energy_clamps by (rule clamp01_range)+








lemma phrase_target_range:
  assumes "0 \<le> p" and "p \<le> 1"
  shows "4 \<le> trunc (fadd 4 (fmul p 28))" and "trunc (fadd 4 (fmul p 28)) \<le> 32"
proof -
  have f28: "fl 28 = 28" using fl_of_int [of 28] by simp
  have f4: "fl 4 = 4" using fl_of_int [of 4] by simp
  have f32: "fl 32 = 32" using fl_of_int [of 32] by simp
  have a: "0 \<le> fmul p 28" using assms(1) by (intro fmul_nonneg) simp_all
  have b: "fmul p 28 \<le> 28" unfolding fmul_def using assms(2) by (intro fl_le f28) simp
  have "4 \<le> fadd 4 (fmul p 28)" unfolding fadd_def using a by (intro fl_ge f4) simp
  moreover have "fadd 4 (fmul p 28) \<le> 32" unfolding fadd_def using b by (intro fl_le f32) simp
  ultimately show "4 \<le> trunc (fadd 4 (fmul p 28))" and "trunc (fadd 4 (fmul p 28)) \<le> 32"
    by (simp_all add: trunc_def le_floor_iff floor_le_iff)
qed

subsection \<open>Memory acceptance\<close>

lemma fold_count_filter:
  "fold (\<lambda>x count. if x = note then count + 1 else count) xs (k::int) =
     k + int (length (filter (\<lambda>x. x = note) xs))"
  by (induction xs arbitrary: k) simp_all

lemma count_in_history_ok:
  "note_history_count s \<le> 8 \<Longrightarrow> count_in_history note s = Some (history_occurrences note s)"
  by (simp add: count_in_history_def history_occurrences_def NOTE_HISTORY_SIZE_def fold_count_filter)

lemma history_occurrences_range:
  "note_history_count s \<le> 8 \<Longrightarrow> 0 \<le> history_occurrences note s \<and> history_occurrences note s \<le> 8"
proof -
  assume a: "note_history_count s \<le> 8"
  have "length (filter (\<lambda>x. x = note) (take (nat (note_history_count s)) (note_history s)))
          \<le> length (take (nat (note_history_count s)) (note_history s))"
    by (rule length_filter_le)
  also have "\<dots> \<le> nat (note_history_count s)" by simp
  also have "\<dots> \<le> 8" using a by simp
  finally show ?thesis by (simp add: history_occurrences_def)
qed


lemma acceptance_probability_neutral:
  "fl 0.4 \<le> m \<Longrightarrow> m \<le> fl 0.6 \<Longrightarrow> acceptance_probability m h = 1"
  by (simp add: acceptance_probability_def Let_def)


lemma fl_8: "fl 8 = 8"
  using fl_of_int [of 8] by simp

lemma acceptance_probability_low:
  "m < fl 0.4 \<Longrightarrow>
   acceptance_probability m h =
     clamp01 (fsub 1 (fdiv (fmul (fdiv (fsub (fl 0.4) m) (fl 0.4)) (fl (of_int h))) 8))"
  by (simp add: acceptance_probability_def Let_def clamp_ifs NOTE_HISTORY_SIZE_def fl_8)


lemma memory_bias_cases:
  "apply_memory_bias c s =
     (case count_in_history c s of
        None \<Rightarrow> None
      | Some h \<Rightarrow>
          if h = 0 then Some (True, s)
          else Some (fst (random_float s) < acceptance_probability (energy_memory s) h,
                     snd (random_float s)))"
  by (simp add: apply_memory_bias_def Let_def case_prod_beta split: option.splits)

subsection \<open>The generation pipeline\<close>

declare candidate_loop.simps [simp del]

declare loop_passes.simps [simp del]

lemma rng_only_update: "rng_only s (s\<lparr>rng_state := x\<rparr>)"
  unfolding rng_only_def by (rule exI [of _ x]) (rule refl)

lemma rng_only_refl: "rng_only s s"
  using rng_only_update [of s "rng_state s"] by simp

lemma rng_only_trans:
  assumes "rng_only s s'" and "rng_only s' s''"
  shows "rng_only s s''"
proof -
  from assms obtain x y where "s' = s\<lparr>rng_state := x\<rparr>" and "s'' = s'\<lparr>rng_state := y\<rparr>"
    unfolding rng_only_def by blast
  then have "s'' = s\<lparr>rng_state := y\<rparr>" by simp
  then show ?thesis by (simp only: rng_only_update)
qed

lemma xorshift32_state: "snd (xorshift32 s) = s\<lparr>rng_state := fst (xorshift32 s)\<rparr>"
  by (simp add: xorshift32_def Let_def)

lemma random_float_alt:
  "random_float s =
     (fdiv (fl (real (unat (fst (xorshift32 s))))) 4294967296,
      s\<lparr>rng_state := fst (xorshift32 s)\<rparr>)"
  by (simp add: random_float_def case_prod_beta xorshift32_state)

lemma random_float_rng: "random_float s = (r, s') \<Longrightarrow> rng_only s s'"
  unfolding random_float_alt by (auto simp: rng_only_update)

text \<open>A draw lies between 0 and 1, both included: the conversion to float rounds the
  results from \<open>2^32 - 128\<close> on up to \<open>2^32\<close>.\<close>

lemma fl_2_32: "fl 4294967296 = 4294967296"
  using fl_int_pow [of 1 32] by simp

lemma random_float_range: "random_float s = (r, s') \<Longrightarrow> 0 \<le> r \<and> r \<le> 1"
proof -
  assume a: "random_float s = (r, s')"
  define n where "n = unat (fst (xorshift32 s))"
  have r: "r = fdiv (fl (real n)) 4294967296"
    using a unfolding random_float_alt n_def by simp
  have "n < 2 ^ 32" unfolding n_def using unsigned_less [of "fst (xorshift32 s)"] by simp
  then have "real n \<le> 4294967296" by simp
  then have u: "fl (real n) \<le> 4294967296" by (rule fl_le) (rule fl_2_32)
  have l: "0 \<le> fl (real n)" by (rule fl_nonneg) simp
  have "0 \<le> r" unfolding r using l by (intro fdiv_nonneg) simp_all
  moreover have "r \<le> 1" unfolding r fdiv_def using u by (intro fl_le fl_1) simp
  ultimately show ?thesis by simp
qed

lemma random_float_top:
  assumes "4294967168 \<le> unat (fst (xorshift32 s))"
  shows "fst (random_float s) = 1"
proof -
  define n where "n = unat (fst (xorshift32 s))"
  have "n < 2 ^ 32" unfolding n_def using unsigned_less [of "fst (xorshift32 s)"] by simp
  then have h: "real n \<le> 4294967296" by simp
  have t: "fl 4294967168 = 4294967296"
    using fl_eval_big [of 4294967168 8] by (simp add: rne_def Let_def)
  have "4294967168 \<le> n" using assms by (simp only: n_def)
  then have "real 4294967168 \<le> real n" by (rule of_nat_mono)
  then have "4294967168 \<le> real n" by simp
  then have "fl 4294967168 \<le> fl (real n)" by (rule fl_mono)
  moreover have "fl (real n) \<le> 4294967296" using h by (rule fl_le) (rule fl_2_32)
  ultimately have "fl (real n) = 4294967296" unfolding t by simp
  then show ?thesis unfolding random_float_alt n_def by (simp add: fdiv_def fl_1)
qed

lemma select_interval_rng: "select_interval_from_distribution s = (i, s') \<Longrightarrow> rng_only s s'"
  by (auto simp: select_interval_from_distribution_def Let_def rng_only_refl
      split: if_splits prod.splits dest: random_float_rng)

lemma apply_motion_rng: "apply_motion m i s = (i', s') \<Longrightarrow> rng_only s s'"
  by (auto simp: apply_motion_def Let_def rng_only_refl split: if_splits prod.splits
      dest: random_float_rng)

lemma select_direction_rng: "select_direction s = (b, s') \<Longrightarrow> rng_only s s'"
  by (auto simp: select_direction_def Let_def split: prod.splits dest: random_float_rng)

lemma octave_rng: "apply_octave_displacement n s = (d, s') \<Longrightarrow> rng_only s s'"
  by (auto simp: apply_octave_displacement_def Let_def rng_only_refl split: if_splits prod.splits
      dest: random_float_rng intro: rng_only_trans)

lemma memory_bias_rng: "apply_memory_bias c s = Some (a, s') \<Longrightarrow> rng_only s s'"
  by (auto simp: apply_memory_bias_def Let_def rng_only_refl split: option.splits if_splits prod.splits
      dest: random_float_rng)

lemma rng_only_fields:
  assumes "rng_only s s'"
  shows "parameters_smoothed s' = parameters_smoothed s" "learning_state s' = learning_state s"
    "note_buffer s' = note_buffer s" "note_buffer_count s' = note_buffer_count s"
    "last_note_time s' = last_note_time s" "tendencies s' = tendencies s"
    "current_note s' = current_note s" "previous_note s' = previous_note s"
    "last_interval s' = last_interval s" "last_direction_up s' = last_direction_up s"
    "note_history s' = note_history s" "note_history_count s' = note_history_count s"
    "note_history_index s' = note_history_index s" "phrase_note_count s' = phrase_note_count s"
    "phrase_target_length s' = phrase_target_length s" "current_page s' = current_page s"
    "page_change_timer s' = page_change_timer s"
  using assms unfolding rng_only_def by auto

lemma uint_small: "0 \<le> x \<Longrightarrow> x \<le> 127 \<Longrightarrow> uint (word_of_int x :: u8) = x"
  by (simp add: uint_word_of_int take_bit_int_eq_self)

lemma uint_midi: "0 \<le> x \<Longrightarrow> x \<le> 127 \<Longrightarrow> uint (word_of_int x :: u8) \<le> 127"
  by (simp add: uint_small)

lemma octave_range:
  "apply_octave_displacement n s = (d, s') \<Longrightarrow> uint n \<le> 127 \<Longrightarrow> uint d \<le> 127"
  by (auto simp: apply_octave_displacement_def Let_def
      split: if_splits prod.splits intro!: uint_midi)

lemma rng_only_well_formed: "rng_only s s' \<Longrightarrow> well_formed s' = well_formed s"
  by (simp add: well_formed_def rng_only_fields)

lemma rng_only_learned_kept: "rng_only s s' \<Longrightarrow> learned_kept s s'"
  by (simp add: learned_kept_def rng_only_fields)

lemma learned_kept_trans: "learned_kept s s' \<Longrightarrow> learned_kept s' s'' \<Longrightarrow> learned_kept s s''"
  by (simp add: learned_kept_def)

lemma memory_bias_some:
  "note_history_count s \<le> 8 \<Longrightarrow> \<exists>a s'. apply_memory_bias c s = Some (a, s')"
  by (auto simp: apply_memory_bias_def count_in_history_def NOTE_HISTORY_SIZE_def Let_def
      split: prod.splits)

lemma try_candidate_rng:
  assumes "try_candidate mb s = Some (c, a, s')"
  shows "rng_only s s'"
proof -
  obtain i s1 where s1: "select_interval_from_distribution s = (i, s1)"
    by (cases "select_interval_from_distribution s")
  obtain i' s2 where s2: "apply_motion mb i s1 = (i', s2)"
    by (cases "apply_motion mb i s1")
  obtain g s3 where s3: "select_direction s2 = (g, s3)"
    by (cases "select_direction s2")
  let ?n = "word_of_int (max 0 (min 127 (uint (current_note s3) + (if g then i' else - i')))) :: u8"
  obtain d s4 where s4: "apply_octave_displacement ?n s3 = (d, s4)"
    by (cases "apply_octave_displacement ?n s3")
  from assms have "apply_memory_bias d s4 = Some (a, s')"
    by (auto simp: try_candidate_def s1 s2 s3 s4 Let_def split: option.splits)
  then have "rng_only s4 s'" by (rule memory_bias_rng)
  with select_interval_rng [OF s1] apply_motion_rng [OF s2] select_direction_rng [OF s3]
    octave_rng [OF s4]
  show ?thesis by (blast intro: rng_only_trans)
qed

lemma try_candidate_ok:
  assumes "note_history_count s \<le> 8"
  shows "\<exists>c a s'. try_candidate mb s = Some (c, a, s') \<and> uint c \<le> 127"
proof -
  obtain i s1 where s1: "select_interval_from_distribution s = (i, s1)"
    by (cases "select_interval_from_distribution s")
  obtain i' s2 where s2: "apply_motion mb i s1 = (i', s2)"
    by (cases "apply_motion mb i s1")
  obtain g s3 where s3: "select_direction s2 = (g, s3)"
    by (cases "select_direction s2")
  let ?n = "word_of_int (max 0 (min 127 (uint (current_note s3) + (if g then i' else - i')))) :: u8"
  obtain d s4 where s4: "apply_octave_displacement ?n s3 = (d, s4)"
    by (cases "apply_octave_displacement ?n s3")
  have "rng_only s s4"
    using select_interval_rng [OF s1] apply_motion_rng [OF s2] select_direction_rng [OF s3]
      octave_rng [OF s4] by (blast intro: rng_only_trans)
  then have "note_history_count s4 \<le> 8" using assms by (simp add: rng_only_fields)
  then obtain a s5 where s5: "apply_memory_bias d s4 = Some (a, s5)"
    using memory_bias_some by blast
  have "uint ?n \<le> 127" by (rule uint_midi) simp_all
  then have d: "uint d \<le> 127" using octave_range [OF s4] by simp
  have "try_candidate mb s = Some (d, a, s5)"
    by (simp add: try_candidate_def s1 s2 s3 s4 s5 Let_def)
  with d show ?thesis by blast
qed

lemma try_candidate_midi:
  assumes "try_candidate mb s = Some (c, a, s')"
  shows "uint c \<le> 127"
proof -
  obtain i s1 where s1: "select_interval_from_distribution s = (i, s1)"
    by (cases "select_interval_from_distribution s")
  obtain i' s2 where s2: "apply_motion mb i s1 = (i', s2)"
    by (cases "apply_motion mb i s1")
  obtain g s3 where s3: "select_direction s2 = (g, s3)"
    by (cases "select_direction s2")
  let ?n = "word_of_int (max 0 (min 127 (uint (current_note s3) + (if g then i' else - i')))) :: u8"
  obtain d s4 where s4: "apply_octave_displacement ?n s3 = (d, s4)"
    by (cases "apply_octave_displacement ?n s3")
  from assms have c: "c = d"
    by (auto simp: try_candidate_def s1 s2 s3 s4 Let_def split: option.splits)
  have "uint ?n \<le> 127" by (rule uint_midi) simp_all
  then show ?thesis using octave_range [OF s4] c by simp
qed

lemma candidate_loop_rng:
  "candidate_loop mb k c0 s = Some (c, a, s') \<Longrightarrow> rng_only s s'"
proof (induction mb k c0 s rule: candidate_loop.induct)
  case (1 mb k c0 s)
  show ?case
  proof (cases "k < MAX_ATTEMPTS")
    case False
    with "1.prems" show ?thesis by (simp add: candidate_loop.simps rng_only_refl)
  next
    case True
    with "1.prems" obtain c1 a1 s1 where t: "try_candidate mb s = Some (c1, a1, s1)"
      by (auto simp: candidate_loop.simps [of mb k c0 s] split: option.splits)
    note r = try_candidate_rng [OF t]
    show ?thesis
    proof (cases a1)
      case True
      with "1.prems" \<open>k < MAX_ATTEMPTS\<close> t r show ?thesis
        by (simp add: candidate_loop.simps [of mb k c0 s])
    next
      case False
      with "1.prems" \<open>k < MAX_ATTEMPTS\<close> t
      have "candidate_loop mb (k + 1) c1 s1 = Some (c, a, s')"
        by (simp add: candidate_loop.simps [of mb k c0 s])
      from "1.IH" [OF \<open>k < MAX_ATTEMPTS\<close> t refl refl False this] r
      show ?thesis by (blast intro: rng_only_trans)
    qed
  qed
qed

lemma candidate_loop_ok:
  "note_history_count s \<le> 8 \<Longrightarrow> uint c0 \<le> 127 \<Longrightarrow>
     \<exists>c a s'. candidate_loop mb k c0 s = Some (c, a, s') \<and> uint c \<le> 127"
proof (induction mb k c0 s rule: candidate_loop.induct)
  case (1 mb k c0 s)
  show ?case
  proof (cases "k < MAX_ATTEMPTS")
    case False
    with "1.prems" show ?thesis by (simp add: candidate_loop.simps)
  next
    case True
    from try_candidate_ok [OF "1.prems"(1), of mb]
    obtain c1 a1 s1 where t: "try_candidate mb s = Some (c1, a1, s1)" and c1: "uint c1 \<le> 127"
      by blast
    show ?thesis
    proof (cases a1)
      case True
      with \<open>k < MAX_ATTEMPTS\<close> t c1 show ?thesis
        by (simp add: candidate_loop.simps [of mb k c0 s])
    next
      case False
      have "note_history_count s1 \<le> 8"
        using try_candidate_rng [OF t] "1.prems"(1) by (simp add: rng_only_fields)
      from "1.IH" [OF \<open>k < MAX_ATTEMPTS\<close> t refl refl False this c1]
      show ?thesis using \<open>k < MAX_ATTEMPTS\<close> t False
        by (simp add: candidate_loop.simps [of mb k c0 s])
    qed
  qed
qed

lemma add_note_ok:
  "well_formed s \<Longrightarrow> \<exists>s'. add_note_to_history n s = Some s' \<and> well_formed s'"
  by (auto simp: add_note_to_history_def well_formed_def NOTE_HISTORY_SIZE_def Let_def)

lemma add_note_frame:
  "add_note_to_history n s = Some s' \<Longrightarrow>
     learned_kept s s' \<and> note_history s' = (note_history s)[nat (note_history_index s) := n]"
  by (auto simp: add_note_to_history_def learned_kept_def Let_def split: if_splits)

lemma phrase_reset_frame: "learned_kept s (phrase_reset now s)"
proof -
  obtain r s1 where r: "random_float s = (r, s1)" by (cases "random_float s")
  from rng_only_learned_kept [OF random_float_rng [OF r]]
  show ?thesis by (simp add: phrase_reset_def Let_def r learned_kept_def)
qed

lemma phrase_reset_well_formed: "well_formed (phrase_reset now s) = well_formed s"
proof -
  obtain r s1 where r: "random_float s = (r, s1)" by (cases "random_float s")
  from rng_only_well_formed [OF random_float_rng [OF r]]
  show ?thesis by (simp add: phrase_reset_def Let_def r well_formed_def)
qed

lemma phrase_reset_history: "note_history (phrase_reset now s) = note_history s"
proof -
  obtain r s1 where r: "random_float s = (r, s1)" by (cases "random_float s")
  from rng_only_fields(11) [OF random_float_rng [OF r]]
  show ?thesis by (simp add: phrase_reset_def Let_def r)
qed

lemma generate_unfold:
  assumes "candidate_loop (energy_motion s) 0 0
             (s\<lparr>phrase_target_length := trunc (fadd 4 (fmul (energy_phrase s) 28))\<rparr>) = Some (c, a, s1)"
    and "add_note_to_history c s1 = Some s2"
  shows "\<exists>s'. generate_next_note now s = Some (c, s') \<and>
           learned_kept s2 s' \<and> well_formed s' = well_formed s2 \<and>
           note_history s' = note_history s2"
  using assms phrase_reset_frame [of "s2\<lparr>phrase_note_count := phrase_note_count s2 + 1\<rparr>" now]
    phrase_reset_well_formed [of now "s2\<lparr>phrase_note_count := phrase_note_count s2 + 1\<rparr>"]
    phrase_reset_history [of now "s2\<lparr>phrase_note_count := phrase_note_count s2 + 1\<rparr>"]
  by (simp add: generate_next_note_def Let_def learned_kept_def well_formed_def)

lemma generate_cases:
  assumes "generate_next_note now s = Some (n, s')"
  shows "\<exists>a s1 s2. candidate_loop (energy_motion s) 0 0
             (s\<lparr>phrase_target_length := trunc (fadd 4 (fmul (energy_phrase s) 28))\<rparr>) = Some (n, a, s1) \<and>
           add_note_to_history n s1 = Some s2"
  using assms by (auto simp: generate_next_note_def Let_def split: option.splits)

lemma generate_frame:
  assumes "generate_next_note now s = Some (n, s')"
  shows "learned_kept s s'"
proof -
  let ?s0 = "s\<lparr>phrase_target_length := trunc (fadd 4 (fmul (energy_phrase s) 28))\<rparr>"
  from generate_cases [OF assms] obtain a s1 s2
    where l: "candidate_loop (energy_motion s) 0 0 ?s0 = Some (n, a, s1)"
      and h: "add_note_to_history n s1 = Some s2" by blast
  from generate_unfold [OF l h, of now] assms have k: "learned_kept s2 s'" by auto
  have "learned_kept s ?s0" by (simp add: learned_kept_def)
  moreover have "learned_kept ?s0 s1" using candidate_loop_rng [OF l] by (rule rng_only_learned_kept)
  moreover have "learned_kept s1 s2" using add_note_frame [OF h] by simp
  ultimately show ?thesis using k by (blast intro: learned_kept_trans)
qed

lemma generate_ok:
  assumes "well_formed s"
  shows "\<exists>n s'. generate_next_note now s = Some (n, s') \<and> uint n \<le> 127 \<and> well_formed s'"
proof -
  let ?s0 = "s\<lparr>phrase_target_length := trunc (fadd 4 (fmul (energy_phrase s) 28))\<rparr>"
  have w0: "well_formed ?s0" using assms by (simp add: well_formed_def)
  then have "note_history_count ?s0 \<le> 8" by (simp add: well_formed_def)
  from candidate_loop_ok [OF this, of 0 "energy_motion s" 0]
  obtain c a s1 where l: "candidate_loop (energy_motion s) 0 0 ?s0 = Some (c, a, s1)"
    and c: "uint c \<le> 127" by auto
  have "well_formed s1" using rng_only_well_formed [OF candidate_loop_rng [OF l]] w0 by simp
  from add_note_ok [OF this, of c] obtain s2 where h: "add_note_to_history c s1 = Some s2"
    and w2: "well_formed s2" by blast
  from generate_unfold [OF l h, of now] c w2 show ?thesis by auto
qed

lemma note_trigger_ok:
  assumes "well_formed s"
  shows "\<exists>s'. note_trigger now s = Some s' \<and> well_formed s' \<and> learned_kept s (s'\<lparr>current_note := current_note s\<rparr>)
           \<and> (learning_state s = STATE_GENERATING \<and> MIN_LEARN_NOTES \<le> note_buffer_count s \<longrightarrow>
                uint (current_note s') \<le> 127)"
proof (cases "learning_state s = STATE_GENERATING \<and> MIN_LEARN_NOTES \<le> note_buffer_count s")
  case False
  then show ?thesis using assms by (auto simp: note_trigger_def learned_kept_def)
next
  case True
  from generate_ok [OF assms, of now] obtain n s1
    where g: "generate_next_note now s = Some (n, s1)" and n: "uint n \<le> 127"
      and w: "well_formed s1" by blast
  from generate_frame [OF g] have k: "learned_kept s s1" .
  have "note_trigger now s = Some (s1\<lparr>current_note := n\<rparr>)"
    using True g by (simp add: note_trigger_def)
  moreover have "well_formed (s1\<lparr>current_note := n\<rparr>)" using w by (simp add: well_formed_def)
  moreover have "learned_kept s (s1\<lparr>current_note := n, current_note := current_note s\<rparr>)"
    using k by (simp add: learned_kept_def)
  ultimately show ?thesis using n by simp
qed

lemma note_trigger_frame:
  assumes "note_trigger now s = Some s'"
  shows "learned_kept s (s'\<lparr>current_note := current_note s\<rparr>)"
proof (cases "learning_state s = STATE_GENERATING \<and> MIN_LEARN_NOTES \<le> note_buffer_count s")
  case False
  then show ?thesis using assms by (auto simp: note_trigger_def learned_kept_def)
next
  case True
  with assms obtain n s1 where g: "generate_next_note now s = Some (n, s1)"
    and s': "s' = s1\<lparr>current_note := n\<rparr>"
    by (auto simp: note_trigger_def split: option.splits)
  from generate_frame [OF g] show ?thesis by (simp add: s' learned_kept_def)
qed

lemma note_triggers_frame:
  "note_triggers nows s = Some s' \<Longrightarrow> learned_kept s (s'\<lparr>current_note := current_note s\<rparr>)"
proof (induction nows arbitrary: s)
  case Nil
  then show ?case by (simp add: learned_kept_def)
next
  case (Cons now nows)
  from Cons.prems obtain s1 where t: "note_trigger now s = Some s1"
    and r: "note_triggers nows s1 = Some s'"
    by (auto split: option.splits)
  from note_trigger_frame [OF t] Cons.IH [OF r] show ?case
    by (simp add: learned_kept_def)
qed

lemma note_triggers_ok:
  "well_formed s \<Longrightarrow> \<exists>s'. note_triggers nows s = Some s' \<and> well_formed s'"
proof (induction nows arbitrary: s)
  case Nil
  then show ?case by simp
next
  case (Cons now nows)
  from note_trigger_ok [OF Cons.prems, of now] obtain s1
    where t: "note_trigger now s = Some s1" and w: "well_formed s1" by blast
  from Cons.IH [OF w] show ?case by (simp add: t)
qed

lemma generating_state_fields:
  "learning_state generating_state = STATE_GENERATING"
  "note_buffer_count generating_state = 4"
  "note_history generating_state = replicate 8 0"
  "note_history_index generating_state = 0"
  "note_history_count generating_state = 0"
  "length (note_buffer generating_state) = 16"
  "tendencies generating_state = tendencies (analyze_learned_notes four_notes_learned)"
proof -
  have d: "learning_done 2042 four_notes_learned"
    by (simp add: learning_done_def four_notes_learned_fields default_timeout
        MAX_LEARN_NOTES_def MIN_LEARN_NOTES_def)
  have l: "length (note_buffer four_notes_learned) = 16"
    by (simp add: four_notes_learned_def three_notes_learned_def note_on_def start_learning_def
      add_note_to_buffer_def initial_state_def MAX_LEARN_NOTES_def Let_def)
  show "learning_state generating_state = STATE_GENERATING"
    "note_buffer_count generating_state = 4"
    "note_history generating_state = replicate 8 0"
    "note_history_index generating_state = 0"
    "note_history_count generating_state = 0"
    "length (note_buffer generating_state) = 16"
    "tendencies generating_state = tendencies (analyze_learned_notes four_notes_learned)"
    using d l
    by (simp_all add: generating_state_def update_learning_state_def Let_def
        four_notes_learned_fields analyze_learned_notes_def)
qed

lemma generating_state_well_formed: "well_formed generating_state"
proof -
  have "length (interval_counts (tendencies generating_state)) = 13"
    unfolding generating_state_fields tendencies_analyze
    by (rule analyze_body_fields(1)) (simp add: four_notes_learned_fields)
  then show ?thesis by (simp add: well_formed_def generating_state_fields)
qed





lemma loop_passes_bound: "loop_passes mb k s \<le> nat (MAX_ATTEMPTS - k)"
proof (induction mb k s rule: loop_passes.induct)
  case (1 mb k s)
  show ?case
  proof (cases "k < MAX_ATTEMPTS")
    case False
    then show ?thesis by (simp add: loop_passes.simps [of mb k s])
  next
    case True
    show ?thesis
    proof (cases "try_candidate mb s")
      case None
      then show ?thesis using True by (simp add: loop_passes.simps [of mb k s])
    next
      case (Some r)
      obtain c a s' where r: "r = (c, a, s')" by (cases r)
      show ?thesis
      proof (cases a)
        case True
        then show ?thesis using \<open>k < MAX_ATTEMPTS\<close> Some r
          by (simp add: loop_passes.simps [of mb k s])
      next
        case False
        from "1.IH" [OF \<open>k < MAX_ATTEMPTS\<close> Some [unfolded r] refl refl False]
        show ?thesis using \<open>k < MAX_ATTEMPTS\<close> Some r False
          by (simp add: loop_passes.simps [of mb k s])
      qed
    qed
  qed
qed

lemma loop_reject:
  "k < 4 \<Longrightarrow> try_candidate mb s = Some (c, False, s') \<Longrightarrow>
     candidate_loop mb k c0 s = candidate_loop mb (k + 1) c s' \<and>
     loop_passes mb k s = 1 + loop_passes mb (k + 1) s'"
  by (simp add: candidate_loop.simps [of mb k c0 s] loop_passes.simps [of mb k s] MAX_ATTEMPTS_def)

lemma loop_accept:
  "k < 4 \<Longrightarrow> try_candidate mb s = Some (c, True, s') \<Longrightarrow>
     candidate_loop mb k c0 s = Some (c, k, s') \<and> loop_passes mb k s = 1"
  by (simp add: candidate_loop.simps [of mb k c0 s] loop_passes.simps [of mb k s] MAX_ATTEMPTS_def)

lemma loop_exit: "candidate_loop mb 4 c s = Some (c, 4, s) \<and> loop_passes mb 4 s = 0"
  by (simp add: candidate_loop.simps [of mb 4 c s] loop_passes.simps [of mb 4 s] MAX_ATTEMPTS_def)

lemma four_rejections:
  assumes "try_candidate mb s0 = Some (c1, False, s1)"
    and "try_candidate mb s1 = Some (c2, False, s2)"
    and "try_candidate mb s2 = Some (c3, False, s3)"
    and "try_candidate mb s3 = Some (c4, False, s4)"
  shows "candidate_loop mb 0 c0 s0 = Some (c4, 4, s4)" and "loop_passes mb 0 s0 = 4"
proof -
  note a = loop_reject [OF _ assms(1), of 0 c0] loop_reject [OF _ assms(2), of 1 c1]
    loop_reject [OF _ assms(3), of 2 c2] loop_reject [OF _ assms(4), of 3 c3]
    loop_exit [of mb c4 s4]
  show "candidate_loop mb 0 c0 s0 = Some (c4, 4, s4)" using a by simp
  show "loop_passes mb 0 s0 = 4" using a by simp
qed

lemma stuck_controls_values:
  "stuck_controls PARAM_MOTION = 0.5" "stuck_controls PARAM_MEMORY = 0"
  "stuck_controls PARAM_REGISTER = 0" "stuck_controls PARAM_DIRECTION = 0"
  "stuck_controls PARAM_PHRASE = 0.5" "stuck_controls PARAM_ENERGY = 0.5"
  "stuck_controls PARAM_RANGE_WIDTH = 0"
  by (simp_all add: stuck_controls_def default_controls_def PARAM_defs)

lemma literal_pos: "0 < fl 0.7" "0 < fl 0.05" "0 < fl 0.1" "0 < fl 0.4"
  unfolding fl_literals by simp_all

lemma fl_fl_0_4: "fl (fl 0.4) = fl 0.4"
  unfolding fl_0_4 using fl_dyadic [of 13421773 25] by simp

lemma stuck_energy:
  assumes "parameters_smoothed s = stuck_controls"
  shows "energy_motion s = 1 / 2" "energy_phrase s = 1 / 2" "energy_memory s = 0"
    "energy_gravity s = 0" "energy_range s = 0"
  by (simp_all add: energy_motion_def energy_phrase_def energy_memory_def energy_gravity_def
      energy_range_def energy_deviation_def assms stuck_controls_values
      fadd_def fsub_def fmul_def fl_0 fl_half)

lemma reject_all: "acceptance_probability 0 8 = 0"
proof -
  have c: "fl 0.4 \<noteq> 0" using literal_pos(4) by simp
  have a: "fdiv (fsub (fl 0.4) 0) (fl 0.4) = 1"
    unfolding fsub_def fdiv_def diff_zero fl_fl_0_4 using c by (simp add: fl_1)
  have "fsub 1 (fdiv (fmul 1 (fl (of_int 8))) 8) = 0"
    by (simp add: fsub_def fdiv_def fmul_def fl_8 fl_1 fl_0)
  then show ?thesis
    unfolding acceptance_probability_low [OF literal_pos(4)] a by (simp add: clamp01_def)
qed

lemma stuck_try:
  assumes "stuck s"
  shows "try_candidate (1 / 2) s = Some (0, False, two_draws s)" and "stuck (two_draws s)"
proof -
  from assms have ps: "parameters_smoothed s = stuck_controls"
    and t: "tendencies s = empty_tendencies" and cn: "current_note s = 0"
    and nh: "note_history s = replicate 8 0" and nc: "note_history_count s = 8"
    and pc: "phrase_note_count s = 0" and pt: "phrase_target_length s = 18"
    by (simp_all add: stuck_def)
  obtain r1 s1 where d1: "random_float s = (r1, s1)" by (cases "random_float s")
  obtain r2 s2 where d2: "random_float s1 = (r2, s2)" by (cases "random_float s1")
  have two: "two_draws s = s2" by (simp add: two_draws_def d1 d2)
  note f1 = rng_only_fields [OF random_float_rng [OF d1]]
  note f2 = rng_only_fields [OF random_float_rng [OF d2]]
  have r1: "\<not> r1 < 0" using random_float_range [OF d1] by simp
  have r2: "\<not> r2 < 0" using random_float_range [OF d2] by simp
  have i: "select_interval_from_distribution s = (2, s)"
    by (simp add: select_interval_from_distribution_def t empty_tendencies_def)
  have m: "apply_motion (1 / 2) 2 s = (2, s)"
    by (simp add: apply_motion_def trunc_def fsub_def fmul_def fl_0)
  have g: "boosted_gravity s = 0"
    using literal_pos(1)
    by (simp add: boosted_gravity_def phrase_boost_def stuck_energy [OF ps] pc pt fdiv_def fl_0)
  have p: "direction_probability 0 s = 0"
    using literal_pos(2)
    by (simp add: direction_probability_def Let_def ps stuck_controls_values t
        empty_tendencies_def fadd_def fsub_def fmul_def fl_0 fl_1 fl_minus fl_half)
  have d: "select_direction s = (False, s1)"
    using r1 by (simp add: select_direction_def g p d1)
  have o: "apply_octave_displacement 0 s1 = (0, s1)"
    using literal_pos(3) by (simp add: apply_octave_displacement_def stuck_energy(5) f1(1) ps)
  have h: "count_in_history 0 s1 = Some 8"
    by (simp add: count_in_history_def NOTE_HISTORY_SIZE_def f1 nh nc fold_count_filter
        del: fold_replicate)
  have b: "apply_memory_bias 0 s1 = Some (False, s2)"
    using r2 by (simp add: apply_memory_bias_def h stuck_energy(3) f1(1) ps reject_all d2)
  show "try_candidate (1 / 2) s = Some (0, False, two_draws s)"
    by (simp add: try_candidate_def i m d f1 cn o b two)
  show "stuck (two_draws s)"
    using assms by (simp add: two stuck_def f1 f2)
qed

lemma stuck_state_params: "parameters_smoothed stuck_state = stuck_controls"
  by (simp add: stuck_state_def initial_state_def)

lemma stuck_start_eq:
  "stuck_state\<lparr>phrase_target_length := trunc (fadd 4 (fmul (energy_phrase stuck_state) 28))\<rparr> =
     stuck_start"
proof -
  have "fl 14 = 14" and "fl 18 = 18" using fl_of_int [of 14] fl_of_int [of 18] by simp_all
  then have "trunc (fadd 4 (fmul (1 / 2) 28)) = 18"
    by (simp add: fadd_def fmul_def trunc_def)
  then show ?thesis
    by (simp add: stuck_start_def stuck_energy [OF stuck_state_params])
qed

lemma stuck_start_stuck: "stuck stuck_start"
  by (simp add: stuck_def stuck_start_def stuck_state_def initial_state_def)

lemma stuck_state_well_formed: "well_formed stuck_state"
  by (simp add: well_formed_def stuck_state_def initial_state_def empty_tendencies_def)


lemma analyze_well_formed:
  assumes "well_formed s"
  shows "well_formed (analyze_learned_notes s)"
proof -
  have "length (interval_counts (tendencies (analyze_learned_notes s))) = 13"
  proof (cases "2 \<le> note_buffer_count s")
    case True
    then show ?thesis unfolding tendencies_analyze by (rule analyze_body_fields(1))
  next
    case False
    then show ?thesis by (simp add: tendencies_analyze analyze_body_def empty_tendencies_def)
  qed
  then show ?thesis using assms by (simp add: well_formed_def analyze_learned_notes_def)
qed

lemma session_well_formed:
  assumes "well_formed s"
  shows "well_formed (note_on now1 now2 midi_note s)"
    and "well_formed (update_learning_state now now_seed s)"
    and "well_formed (encoder_click s)"
proof -
  show "well_formed (note_on now1 now2 midi_note s)"
    using assms
    by (simp add: note_on_def start_learning_def add_note_to_buffer_def well_formed_def
        Let_def)
  show "well_formed (encoder_click s)"
    using assms by (simp add: encoder_click_def well_formed_def)
  have "well_formed (s\<lparr>learning_state := STATE_GENERATING\<rparr>)"
    using assms by (simp add: well_formed_def)
  from analyze_well_formed [OF this]
  show "well_formed (update_learning_state now now_seed s)"
    using assms by (simp add: update_learning_state_def Let_def well_formed_def)
qed






subsection \<open>Properties of \<open>generate_next_note\<close>\<close>

text \<open>
  Claim C2.  From every well-formed state (whatever the control vector, the tendencies, the
  history contents and the generation state), \<open>generate_next_note\<close> returns without a
  fault a note in the MIDI range 0 to 127 and a well-formed state; so does every pass through
  the loop body, whose candidate is clamped when the interval is applied and again inside the
  octave displacement; and any run of triggers completes without a fault.  Well-formedness
  (the history index and count within the history) holds at power-on and is kept by note
  input, by the learning poll and by the encoder click, so it holds in every state the
  session reaches.
\<close>

theorem generated_note_in_range:
  assumes "well_formed s"
  shows "(\<exists>n s'. generate_next_note now s = Some (n, s') \<and> uint n \<le> 127 \<and> well_formed s') \<and>
         (\<exists>c a s1. try_candidate mb s = Some (c, a, s1) \<and> uint c \<le> 127) \<and>
         (\<exists>s'. note_trigger now s = Some s' \<and> well_formed s' \<and>
            (learning_state s = STATE_GENERATING \<and> MIN_LEARN_NOTES \<le> note_buffer_count s \<longrightarrow>
               uint (current_note s') \<le> 127)) \<and>
         (\<exists>s'. note_triggers nows s = Some s' \<and> well_formed s') \<and>
         well_formed (note_on now1 now2 midi_note s) \<and>
         well_formed (update_learning_state now now_seed s) \<and>
         well_formed (encoder_click s)"
proof -
  have "note_history_count s \<le> 8" using assms by (simp add: well_formed_def)
  from try_candidate_ok [OF this, of mb] generate_ok [OF assms, of now]
    note_trigger_ok [OF assms, of now] note_triggers_ok [OF assms, of nows]
    session_well_formed(1) [OF assms, of now1 now2 midi_note]
    session_well_formed(2) [OF assms, of now now_seed] session_well_formed(3) [OF assms]
  show ?thesis by blast
qed

theorem generated_note_in_range_witness:
  "well_formed generating_state \<and>
   (\<exists>n s'. generate_next_note 3000 generating_state = Some (n, s') \<and> uint n \<le> 127 \<and>
      well_formed s') \<and>
   (\<exists>s'. note_triggers [3000, 3500, 4000] generating_state = Some s' \<and> well_formed s')"
  using generated_note_in_range
      [OF generating_state_well_formed, of 3000 0 "[3000, 3500, 4000]" 0 0 0 0]
    generating_state_well_formed by blast

text \<open>
  Claim C4.  The candidate loop makes at most 4 passes; an accepted candidate ends it at
  once.  When the memory bias rejects the
  candidates of four passes in a row, the loop ends after the fourth pass with the fourth
  candidate, and \<open>generate_next_note\<close> writes that candidate to the history slot at the
  history index and returns it.  From a well-formed state every call returns a note.  (The
  loop starts from the state in which the call has set the phrase target, 4 plus 28 times
  the energy-adjusted PHRASE in single-precision arithmetic, truncated.)
\<close>

theorem candidate_loop_bounded:
  "loop_passes mb 0 s0 \<le> 4 \<and>
   (try_candidate mb s0 = Some (c, True, s') \<longrightarrow>
      candidate_loop mb 0 c0 s0 = Some (c, 0, s') \<and> loop_passes mb 0 s0 = 1) \<and>
   (well_formed s \<longrightarrow> (\<exists>n s'. generate_next_note now s = Some (n, s'))) \<and>
   (well_formed s \<and>
    try_candidate (energy_motion s)
      (s\<lparr>phrase_target_length := trunc (fadd 4 (fmul (energy_phrase s) 28))\<rparr>) =
        Some (c1, False, s1) \<and>
    try_candidate (energy_motion s) s1 = Some (c2, False, s2) \<and>
    try_candidate (energy_motion s) s2 = Some (c3, False, s3) \<and>
    try_candidate (energy_motion s) s3 = Some (c4, False, s4) \<longrightarrow>
      candidate_loop (energy_motion s) 0 0
        (s\<lparr>phrase_target_length := trunc (fadd 4 (fmul (energy_phrase s) 28))\<rparr>) =
          Some (c4, 4, s4) \<and>
      loop_passes (energy_motion s) 0
        (s\<lparr>phrase_target_length := trunc (fadd 4 (fmul (energy_phrase s) 28))\<rparr>) = 4 \<and>
      (\<exists>s'. generate_next_note now s = Some (c4, s') \<and>
            note_history s' = (note_history s)[nat (note_history_index s) := c4]))"
proof (intro conjI impI)
  show "loop_passes mb 0 s0 \<le> 4"
    using loop_passes_bound [of mb 0 s0] by (simp add: MAX_ATTEMPTS_def)
next
  assume a: "try_candidate mb s0 = Some (c, True, s')"
  from loop_accept [OF _ a, of 0 c0]
  show "candidate_loop mb 0 c0 s0 = Some (c, 0, s')" and "loop_passes mb 0 s0 = 1" by simp_all
next
  assume "well_formed s"
  from generate_ok [OF this, of now] show "\<exists>n s'. generate_next_note now s = Some (n, s')"
    by blast
next
  let ?s0 = "s\<lparr>phrase_target_length := trunc (fadd 4 (fmul (energy_phrase s) 28))\<rparr>"
  assume a: "well_formed s \<and>
    try_candidate (energy_motion s) ?s0 = Some (c1, False, s1) \<and>
    try_candidate (energy_motion s) s1 = Some (c2, False, s2) \<and>
    try_candidate (energy_motion s) s2 = Some (c3, False, s3) \<and>
    try_candidate (energy_motion s) s3 = Some (c4, False, s4)"
  then have w: "well_formed s"
    and t1: "try_candidate (energy_motion s) ?s0 = Some (c1, False, s1)"
    and t2: "try_candidate (energy_motion s) s1 = Some (c2, False, s2)"
    and t3: "try_candidate (energy_motion s) s2 = Some (c3, False, s3)"
    and t4: "try_candidate (energy_motion s) s3 = Some (c4, False, s4)" by simp_all
  have l: "candidate_loop (energy_motion s) 0 0 ?s0 = Some (c4, 4, s4)"
    by (rule four_rejections(1) [OF t1 t2 t3 t4])
  have p: "loop_passes (energy_motion s) 0 ?s0 = 4"
    by (rule four_rejections(2) [OF t1 t2 t3 t4])
  show "candidate_loop (energy_motion s) 0 0 ?s0 = Some (c4, 4, s4)" by (rule l)
  show "loop_passes (energy_motion s) 0 ?s0 = 4" by (rule p)
  note r = candidate_loop_rng [OF l]
  have "well_formed ?s0" using w by (simp add: well_formed_def)
  then have "well_formed s4" using rng_only_well_formed [OF r] by simp
  from add_note_ok [OF this, of c4] obtain s5 where h: "add_note_to_history c4 s4 = Some s5"
    by blast
  have "note_history s5 = (note_history s4)[nat (note_history_index s4) := c4]"
    using add_note_frame [OF h] by simp
  then have n: "note_history s5 = (note_history s)[nat (note_history_index s) := c4]"
    using rng_only_fields(11,13) [OF r] by simp
  from generate_unfold [OF l h, of now] n
  show "\<exists>s'. generate_next_note now s = Some (c4, s') \<and>
            note_history s' = (note_history s)[nat (note_history_index s) := c4]"
    by auto
qed

theorem candidate_loop_bounded_witness:
  "well_formed stuck_state \<and>
   try_candidate (1 / 2) stuck_start = Some (0, False, two_draws stuck_start) \<and>
   try_candidate (1 / 2) (two_draws stuck_start) =
     Some (0, False, two_draws (two_draws stuck_start)) \<and>
   try_candidate (1 / 2) (two_draws (two_draws stuck_start)) =
     Some (0, False, two_draws (two_draws (two_draws stuck_start))) \<and>
   try_candidate (1 / 2) (two_draws (two_draws (two_draws stuck_start))) =
     Some (0, False, two_draws (two_draws (two_draws (two_draws stuck_start)))) \<and>
   candidate_loop (1 / 2) 0 0 stuck_start =
     Some (0, 4, two_draws (two_draws (two_draws (two_draws stuck_start)))) \<and>
   loop_passes (1 / 2) 0 stuck_start = 4 \<and>
   (\<exists>s'. generate_next_note 5000 stuck_state = Some (0, s') \<and>
      note_history s' = (note_history stuck_state)[nat (note_history_index stuck_state) := 0])"
proof -
  let ?s1 = "two_draws stuck_start"
  let ?s2 = "two_draws ?s1"
  let ?s3 = "two_draws ?s2"
  let ?s4 = "two_draws ?s3"
  note k0 = stuck_start_stuck
  note k1 = stuck_try(2) [OF k0]
  note k2 = stuck_try(2) [OF k1]
  note k3 = stuck_try(2) [OF k2]
  note t1 = stuck_try(1) [OF k0]
  note t2 = stuck_try(1) [OF k1]
  note t3 = stuck_try(1) [OF k2]
  note t4 = stuck_try(1) [OF k3]
  have m: "energy_motion stuck_state = 1 / 2" by (rule stuck_energy(1) [OF stuck_state_params])
  from candidate_loop_bounded
    [of "1 / 2" stuck_start 0 stuck_start 0 stuck_state 5000 0 ?s1 0 ?s2 0 ?s3 0 ?s4]
    stuck_state_well_formed t1 t2 t3 t4
  show ?thesis unfolding stuck_start_eq m by blast
qed

text \<open>
  Claim C10.  A call of \<open>generate_next_note\<close> leaves the learning buffer, its count, the
  tendencies, the session state, the control parameters, the time of the last note, the
  current note and the display page as they were; and so does any run of triggers (which
  stores each generated note as the current note).
\<close>

theorem generation_keeps_learning:
  "(generate_next_note now s = Some (n, s') \<longrightarrow>
      note_buffer s' = note_buffer s \<and> note_buffer_count s' = note_buffer_count s \<and>
      tendencies s' = tendencies s \<and> learning_state s' = learning_state s \<and>
      parameters_smoothed s' = parameters_smoothed s \<and> last_note_time s' = last_note_time s \<and>
      current_note s' = current_note s \<and> current_page s' = current_page s \<and>
      page_change_timer s' = page_change_timer s) \<and>
   (note_triggers nows s = Some s'' \<longrightarrow>
      note_buffer s'' = note_buffer s \<and> note_buffer_count s'' = note_buffer_count s \<and>
      tendencies s'' = tendencies s \<and> learning_state s'' = learning_state s \<and>
      parameters_smoothed s'' = parameters_smoothed s \<and> last_note_time s'' = last_note_time s \<and>
      current_page s'' = current_page s \<and> page_change_timer s'' = page_change_timer s)"
  using generate_frame [of now s n s'] note_triggers_frame [of nows s s'']
  by (auto simp: learned_kept_def)

theorem generation_keeps_learning_witness:
  "\<exists>s''. note_triggers [3000, 3500, 4000] generating_state = Some s'' \<and>
      note_buffer s'' = note_buffer generating_state \<and>
      note_buffer_count s'' = note_buffer_count generating_state \<and>
      tendencies s'' = tendencies generating_state \<and>
      learning_state s'' = learning_state generating_state \<and>
      parameters_smoothed s'' = parameters_smoothed generating_state"
proof -
  from note_triggers_ok [OF generating_state_well_formed, of "[3000, 3500, 4000]"]
  obtain s'' where t: "note_triggers [3000, 3500, 4000] generating_state = Some s''" by blast
  from generation_keeps_learning [of 0 generating_state 0 generating_state "[3000, 3500, 4000]" s''] t
  show ?thesis by blast
qed


subsection \<open>The ENERGY macro inside one call\<close>




















subsection \<open>The acceptance test at a draw of 1\<close>

lemma neutral_state_fields:
  "parameters_smoothed neutral_state = default_controls"
  "note_history_count neutral_state = 4"
  "note_history neutral_state = [60, 62, 60, 64, 0, 0, 0, 0]"
  "rng_state neutral_state = 1584200935"
  by (simp_all add: neutral_state_def initial_state_def)

lemma neutral_memory: "energy_memory neutral_state = 1 / 2"
  by (simp add: energy_memory_def energy_deviation_def neutral_state_fields default_controls_def
      PARAM_defs fsub_def fmul_def fl_0 fl_half)

lemma neutral_band: "fl 0.4 \<le> 1 / 2" "1 / 2 \<le> fl 0.6"
  unfolding fl_literals by simp_all

lemma neutral_draw: "fst (xorshift32 neutral_state) = 4294967295"
  by (simp add: xorshift32_def Let_def neutral_state_fields)

text \<open>
  Claim C7.  A candidate that does not occur in the history is accepted without a draw, and
  for a candidate that occurs \<open>h\<close> times the code computes the acceptance probability of
  the specification, which is 1 for an effective MEMORY from \<open>0.4f\<close> to \<open>0.6f\<close> (lemmas
  \<open>memory_bias_cases\<close>, \<open>acceptance_probability_low\<close>, \<open>acceptance_probability_neutral\<close>
  and \<open>acceptance_probability_high\<close>).  But the code accepts when \<open>random_float()\<close> is
  strictly below that probability, and \<open>random_float()\<close> is exactly 1 whenever the generator
  returns \<open>2^32 - 128\<close> or more, the conversion to float rounding such a value up to
  \<open>2^32\<close>.  So a candidate is rejected at acceptance probability 1, in the band where the
  history is to be ignored: with the controls of power-on (MEMORY and ENERGY at 0.5), the
  history 60, 62, 60, 64 and the random state 1584200935, the generator returns
  \<open>2^32 - 1\<close>, the draw is 1, and the candidate 60 is rejected.
\<close>

theorem memory_bias_rejects_at_probability_one:
  "note_history_count neutral_state \<le> 8 \<and>
   history_occurrences 60 neutral_state = 2 \<and>
   energy_memory neutral_state = 1 / 2 \<and>
   fl 0.4 \<le> energy_memory neutral_state \<and> energy_memory neutral_state \<le> fl 0.6 \<and>
   acceptance_probability (energy_memory neutral_state) (history_occurrences 60 neutral_state) = 1 \<and>
   fst (xorshift32 neutral_state) = 4294967295 \<and>
   fst (random_float neutral_state) = 1 \<and>
   apply_memory_bias 60 neutral_state = Some (False, neutral_state\<lparr>rng_state := 4294967295\<rparr>)"
proof -
  have c: "note_history_count neutral_state \<le> 8" by (simp add: neutral_state_fields)
  have o: "history_occurrences 60 neutral_state = 2"
    by (simp add: history_occurrences_def neutral_state_fields)
  have b: "fl 0.4 \<le> energy_memory neutral_state" "energy_memory neutral_state \<le> fl 0.6"
    unfolding neutral_memory by (rule neutral_band)+
  have p: "acceptance_probability (energy_memory neutral_state)
      (history_occurrences 60 neutral_state) = 1"
    using b by (rule acceptance_probability_neutral)
  have r: "fst (random_float neutral_state) = 1"
    by (rule random_float_top) (simp add: neutral_draw)
  have s: "snd (random_float neutral_state) = neutral_state\<lparr>rng_state := 4294967295\<rparr>"
    by (simp add: random_float_alt neutral_draw)
  have "apply_memory_bias 60 neutral_state =
      Some (False, neutral_state\<lparr>rng_state := 4294967295\<rparr>)"
    unfolding memory_bias_cases count_in_history_ok [OF c] using o p r s by simp
  with c o b p r neutral_memory neutral_draw show ?thesis by blast
qed

end
